theory Spec2Isabelle
  imports Complex_Main "HOL-Library.Word"
begin

unbundle bit_operations_syntax

section \<open>Numbers\<close>

text \<open>
  A JavaScript \<open>number\<close> of the generator and the evaluator is modelled as an exact
  rational: every finite double is one, and the rounding of IEEE arithmetic and the
  infinities are not modelled. The 32-bit
  integer arithmetic of the generator (\<open>| 0\<close>, \<open>>>> 0\<close>, \<open>Math.imul\<close>, the shifts) is
  modelled on \<open>32 word\<close>, where addition and multiplication wrap as they do in the code.
  A JavaScript string is the list of its UTF-16 code units.
\<close>

type_synonym number = rat
type_synonym u32 = "32 word"
type_synonym jsstring = "16 word list"

text \<open>
  The numbers of the state data are not checked anywhere: the constructor of the state
  machine spreads the initial data it is given over the defaults, and \<open>updateStateData\<close>
  stores what it is handed. Such a number may be NaN (an \<open>undefined\<close> field reads as one in
  arithmetic and comparison). Arithmetic with NaN gives NaN, and every comparison with NaN
  is false, \<open>>=\<close> and \<open><\<close> alike.
\<close>

datatype jsnumber = Num number | NaN

fun js_add :: "jsnumber \<Rightarrow> jsnumber \<Rightarrow> jsnumber" where
  "js_add (Num a) (Num b) = Num (a + b)"
| "js_add _ _ = NaN"

fun js_sub :: "jsnumber \<Rightarrow> jsnumber \<Rightarrow> jsnumber" where
  "js_sub (Num a) (Num b) = Num (a - b)"
| "js_sub _ _ = NaN"

fun js_ge :: "jsnumber \<Rightarrow> jsnumber \<Rightarrow> bool" where
  "js_ge (Num a) (Num b) = (a \<ge> b)"
| "js_ge _ _ = False"

fun js_lt :: "jsnumber \<Rightarrow> jsnumber \<Rightarrow> bool" where
  "js_lt (Num a) (Num b) = (a < b)"
| "js_lt _ _ = False"

fun js_gt :: "jsnumber \<Rightarrow> jsnumber \<Rightarrow> bool" where
  "js_gt (Num a) (Num b) = (a > b)"
| "js_gt _ _ = False"

section \<open>Seeded random generator (src/utils/rng.ts)\<close>

record SeededRNG =
  rng_a :: u32
  rng_b :: u32
  rng_c :: u32
  rng_d :: u32

text \<open>\<open>mulberry32Hash\<close>: every intermediate value is a 32-bit integer.\<close>

definition mulberry32Hash :: "u32 \<Rightarrow> u32" where
  "mulberry32Hash x0 =
     (let x = x0 + 0x9e3779b9;
          t1 = x XOR drop_bit 16 x;
          t2 = t1 * 0x21f0aaad;
          t3 = t2 XOR drop_bit 15 t2;
          t4 = t3 * 0x735a2d97
      in t4 XOR drop_bit 15 t4)"

text \<open>
  The seed is a string or a number; both the constructor and \<open>setSeed\<close> start with
  \<open>seed.toString()\<close>. The conversion of a number to its string form belongs to the
  JavaScript runtime, not to this repository, and is a parameter \<open>numToString\<close>.
\<close>

datatype seed = StringSeed jsstring | NumberSeed number

fun seed_toString :: "(number \<Rightarrow> jsstring) \<Rightarrow> seed \<Rightarrow> jsstring" where
  "seed_toString numToString (StringSeed s) = s"
| "seed_toString numToString (NumberSeed n) = numToString n"

text \<open>The constructor: the loop over the characters of the seed, then the four stores.\<close>

definition SeededRNG_constructor :: "(number \<Rightarrow> jsstring) \<Rightarrow> seed \<Rightarrow> SeededRNG" where
  "SeededRNG_constructor numToString sd =
     (let seedStr = seed_toString numToString sd;
          (h1, h2, h3, h4) =
            foldl (\<lambda>(h1, h2, h3, h4) ch.
                     (mulberry32Hash (h1 XOR ucast ch), mulberry32Hash (h2 XOR ucast ch),
                      mulberry32Hash (h3 XOR ucast ch), mulberry32Hash (h4 XOR ucast ch)))
                  (1779033703, 3144134277, 1013904242, 2773480762) seedStr
      in \<lparr>rng_a = h1, rng_b = h2, rng_c = h3, rng_d = h4\<rparr>)"

text \<open>\<open>setSeed\<close>: the same loop, written out a second time in the source, on an existing generator.\<close>

definition setSeed :: "(number \<Rightarrow> jsstring) \<Rightarrow> SeededRNG \<Rightarrow> seed \<Rightarrow> SeededRNG" where
  "setSeed numToString r sd =
     (let seedStr = seed_toString numToString sd;
          (h1, h2, h3, h4) =
            foldl (\<lambda>(h1, h2, h3, h4) ch.
                     (mulberry32Hash (h1 XOR ucast ch), mulberry32Hash (h2 XOR ucast ch),
                      mulberry32Hash (h3 XOR ucast ch), mulberry32Hash (h4 XOR ucast ch)))
                  (1779033703, 3144134277, 1013904242, 2773480762) seedStr
      in r\<lparr>rng_a := h1, rng_b := h2, rng_c := h3, rng_d := h4\<rparr>)"

text \<open>
  \<open>next()\<close>: the sfc32 step. The result is the unsigned 32-bit value divided by \<open>2^32\<close>,
  which is exact in a double.
\<close>

definition rng_next :: "SeededRNG \<Rightarrow> number \<times> SeededRNG" where
  "rng_next r =
     (let t = rng_a r + rng_b r;
          a' = rng_b r XOR drop_bit 9 (rng_b r);
          b' = rng_c r + push_bit 3 (rng_c r);
          c1 = push_bit 21 (rng_c r) OR drop_bit 11 (rng_c r);
          d' = rng_d r + 1;
          result = t + d';
          c' = c1 + result
      in (of_int (uint result) / 4294967296,
          r\<lparr>rng_a := a', rng_b := b', rng_c := c', rng_d := d'\<rparr>))"

text \<open>The first \<open>n\<close> values of successive \<open>next()\<close> calls.\<close>

fun next_sequence :: "nat \<Rightarrow> SeededRNG \<Rightarrow> number list" where
  "next_sequence 0 r = []"
| "next_sequence (Suc n) r = fst (rng_next r) # next_sequence n (snd (rng_next r))"

text \<open>\<open>getState\<close> and \<open>setState\<close>.\<close>

definition getState :: "SeededRNG \<Rightarrow> u32 \<times> u32 \<times> u32 \<times> u32" where
  "getState r = (rng_a r, rng_b r, rng_c r, rng_d r)"

definition setState :: "SeededRNG \<Rightarrow> u32 \<times> u32 \<times> u32 \<times> u32 \<Rightarrow> SeededRNG" where
  "setState r st = (case st of (a, b, c, d) \<Rightarrow> r\<lparr>rng_a := a, rng_b := b, rng_c := c, rng_d := d\<rparr>)"

section \<open>Game state machine (src/engine/stateMachine.ts)\<close>

datatype GameState =
  IDLE | SPINNING | EVALUATING | TUMBLING | SHOWING_WIN | FREE_SPINS_TRIGGER | FREE_SPINS | GAME_OVER

datatype GameEvent =
  SPIN | SPIN_COMPLETE | EVALUATION_COMPLETE | WIN_DETECTED | NO_WIN | TUMBLE_COMPLETE
  | WIN_ANIMATION_COMPLETE | FREE_SPINS_TRIGGERED | FREE_SPINS_COMPLETE | BALANCE_INSUFFICIENT
  | RESET

record GameStateData =
  balance :: jsnumber
  bet :: jsnumber
  totalWin :: jsnumber
  cascadeCount :: jsnumber
  freeSpinsRemaining :: jsnumber
  isInFreeSpins :: bool
  multiplier :: jsnumber
  lastWinAmount :: jsnumber
  autoSpinCount :: jsnumber
  maxAutoSpins :: jsnumber
  stopOnWin :: bool
  stopOnLoss :: bool
  winThreshold :: jsnumber
  lossThreshold :: jsnumber

record StateTransition =
  t_from :: GameState
  t_to :: GameState
  t_event :: GameEvent
  t_condition :: "(GameStateData \<Rightarrow> bool) option"
  t_action :: "(GameStateData \<Rightarrow> GameStateData) option"

text \<open>
  A listener is an opaque callback of the host; the model gives each registered listener
  a number and records every call it receives, with its four arguments. Listeners observe:
  they do not write to the state data they are handed. \<open>console.warn\<close> is a log.
\<close>

record Notification =
  n_listener :: nat
  n_previousState :: GameState
  n_currentState :: GameState
  n_event :: GameEvent
  n_data :: GameStateData

datatype LogEntry = InvalidTransition GameState GameEvent | CannotSpin GameState

text \<open>The history entries carry a \<open>Date.now()\<close> timestamp in the source; it is left out.\<close>

record GameStateMachine =
  currentState :: GameState
  stateData :: GameStateData
  listeners :: "nat list"
  stateHistory :: "(GameState \<times> GameEvent) list"
  notified :: "Notification list"
  console :: "LogEntry list"

definition GameStateMachine_constructor ::
  "(GameStateData \<Rightarrow> GameStateData) \<Rightarrow> GameStateMachine" where
  "GameStateMachine_constructor initialData =
     \<lparr>currentState = IDLE,
      stateData = initialData
        \<lparr>balance = Num 1000, bet = Num 1, totalWin = Num 0, cascadeCount = Num 0,
         freeSpinsRemaining = Num 0, isInFreeSpins = False, multiplier = Num 1,
         lastWinAmount = Num 0, autoSpinCount = Num 0, maxAutoSpins = Num 0, stopOnWin = False,
         stopOnLoss = False, winThreshold = Num 0, lossThreshold = Num 0\<rparr>,
      listeners = [], stateHistory = [], notified = [], console = []\<rparr>"

text \<open>\<open>initializeTransitions\<close>: the table, in the order of the source.\<close>

definition initializeTransitions :: "StateTransition list" where
  "initializeTransitions =
     [\<lparr>t_from = IDLE, t_to = SPINNING, t_event = SPIN,
       t_condition = Some (\<lambda>data. js_ge (balance data) (bet data)),
       t_action = Some (\<lambda>data. data\<lparr>balance := js_sub (balance data) (bet data),
                                       cascadeCount := Num 0, totalWin := Num 0,
                                       multiplier := Num 1\<rparr>)\<rparr>,
      \<lparr>t_from = IDLE, t_to = GAME_OVER, t_event = SPIN,
       t_condition = Some (\<lambda>data. js_lt (balance data) (bet data)), t_action = None\<rparr>,
      \<lparr>t_from = SPINNING, t_to = EVALUATING, t_event = SPIN_COMPLETE,
       t_condition = None, t_action = None\<rparr>,
      \<lparr>t_from = EVALUATING, t_to = SHOWING_WIN, t_event = WIN_DETECTED,
       t_condition = None,
       t_action = Some (\<lambda>data. data\<lparr>cascadeCount := js_add (cascadeCount data) (Num 1)\<rparr>)\<rparr>,
      \<lparr>t_from = EVALUATING, t_to = FREE_SPINS_TRIGGER, t_event = FREE_SPINS_TRIGGERED,
       t_condition = None, t_action = Some (\<lambda>data. data)\<rparr>,
      \<lparr>t_from = EVALUATING, t_to = IDLE, t_event = NO_WIN,
       t_condition = None,
       t_action = Some (\<lambda>data. data\<lparr>cascadeCount := Num 0, multiplier := Num 1\<rparr>)\<rparr>,
      \<lparr>t_from = SHOWING_WIN, t_to = TUMBLING, t_event = WIN_ANIMATION_COMPLETE,
       t_condition = None, t_action = None\<rparr>,
      \<lparr>t_from = TUMBLING, t_to = EVALUATING, t_event = TUMBLE_COMPLETE,
       t_condition = None, t_action = None\<rparr>,
      \<lparr>t_from = FREE_SPINS_TRIGGER, t_to = FREE_SPINS, t_event = WIN_ANIMATION_COMPLETE,
       t_condition = None,
       t_action = Some (\<lambda>data. data\<lparr>isInFreeSpins := True\<rparr>)\<rparr>,
      \<lparr>t_from = FREE_SPINS, t_to = SPINNING, t_event = SPIN,
       t_condition = Some (\<lambda>data. js_gt (freeSpinsRemaining data) (Num 0)),
       t_action = Some (\<lambda>data. data\<lparr>freeSpinsRemaining := js_sub (freeSpinsRemaining data) (Num 1),
                                       cascadeCount := Num 0\<rparr>)\<rparr>,
      \<lparr>t_from = FREE_SPINS, t_to = IDLE, t_event = FREE_SPINS_COMPLETE,
       t_condition = None,
       t_action = Some (\<lambda>data. data\<lparr>isInFreeSpins := False, freeSpinsRemaining := Num 0,
                                       balance := js_add (balance data) (totalWin data),
                                       totalWin := Num 0\<rparr>)\<rparr>,
      \<lparr>t_from = IDLE, t_to = IDLE, t_event = RESET, t_condition = None, t_action = None\<rparr>,
      \<lparr>t_from = SPINNING, t_to = IDLE, t_event = RESET, t_condition = None, t_action = None\<rparr>,
      \<lparr>t_from = EVALUATING, t_to = IDLE, t_event = RESET, t_condition = None, t_action = None\<rparr>,
      \<lparr>t_from = TUMBLING, t_to = IDLE, t_event = RESET, t_condition = None, t_action = None\<rparr>,
      \<lparr>t_from = SHOWING_WIN, t_to = IDLE, t_event = RESET, t_condition = None, t_action = None\<rparr>,
      \<lparr>t_from = FREE_SPINS_TRIGGER, t_to = IDLE, t_event = RESET,
       t_condition = None, t_action = None\<rparr>,
      \<lparr>t_from = FREE_SPINS, t_to = IDLE, t_event = RESET,
       t_condition = None,
       t_action = Some (\<lambda>data. data\<lparr>isInFreeSpins := False, freeSpinsRemaining := Num 0\<rparr>)\<rparr>,
      \<lparr>t_from = GAME_OVER, t_to = IDLE, t_event = RESET, t_condition = None, t_action = None\<rparr>]"

text \<open>\<open>notifyListeners\<close>: one call per registered listener, in registration order.\<close>

definition notifyListeners ::
  "GameStateMachine \<Rightarrow> GameState \<Rightarrow> GameState \<Rightarrow> GameEvent \<Rightarrow> GameStateMachine" where
  "notifyListeners m previousState currentState' event =
     m\<lparr>notified := notified m @
          map (\<lambda>l. \<lparr>n_listener = l, n_previousState = previousState,
                    n_currentState = currentState', n_event = event, n_data = stateData m\<rparr>)
              (listeners m)\<rparr>"

text \<open>The test of the loop in \<open>processEvent\<close>: \<open>!transition.condition || transition.condition(data)\<close>.\<close>

definition guard_passes :: "GameStateData \<Rightarrow> StateTransition \<Rightarrow> bool" where
  "guard_passes data t = (case t_condition t of None \<Rightarrow> True | Some cond \<Rightarrow> cond data)"

text \<open>
  \<open>processEvent\<close>: the transitions from the current state on the event are filtered out of
  the table; the first whose guard passes runs its action, changes the state, is added to
  the history and is announced to the listeners, and the call returns \<open>true\<close>. When the loop
  ends without one, the call warns and returns \<open>false\<close>.
\<close>

definition processEvent :: "GameStateMachine \<Rightarrow> GameEvent \<Rightarrow> bool \<times> GameStateMachine" where
  "processEvent m event =
     (let validTransitions =
            filter (\<lambda>t. t_from t = currentState m \<and> t_event t = event) initializeTransitions
      in case find (guard_passes (stateData m)) validTransitions of
           Some transition \<Rightarrow>
             (let previousState = currentState m;
                  data' = (case t_action transition of
                             None \<Rightarrow> stateData m
                           | Some action \<Rightarrow> action (stateData m));
                  m1 = m\<lparr>stateData := data', currentState := t_to transition,
                         stateHistory := stateHistory m @ [(t_to transition, event)]\<rparr>
              in (True, notifyListeners m1 previousState (currentState m1) event))
         | None \<Rightarrow>
             (False, m\<lparr>console := console m @ [InvalidTransition (currentState m) event]\<rparr>))"

definition getStateData :: "GameStateMachine \<Rightarrow> GameStateData" where
  "getStateData m = stateData m"

definition updateStateData ::
  "GameStateMachine \<Rightarrow> (GameStateData \<Rightarrow> GameStateData) \<Rightarrow> GameStateMachine" where
  "updateStateData m updates = m\<lparr>stateData := updates (stateData m)\<rparr>"

definition canSpin :: "GameStateMachine \<Rightarrow> bool" where
  "canSpin m = (currentState m = IDLE \<or>
                (currentState m = FREE_SPINS \<and> js_gt (freeSpinsRemaining (stateData m)) (Num 0)))"

section \<open>Grid evaluator (src/engine/evaluator.ts)\<close>

text \<open>
  Symbol ids are compared and looked up, never inspected, and are modelled as HOL strings.
  A symbol id is \<open>None\<close> where the JavaScript value is \<open>undefined\<close>: \<open>rng.choice\<close> on an
  empty pool returns \<open>undefined\<close>, and \<open>fillEmptyPositions\<close> stores it as the id.
  Grid coordinates are integers: the flood fill pushes neighbours outside the grid
  (column \<open>-1\<close>) before it tests them.
\<close>

record GridPosition =
  col :: int
  row :: int

record Symbol =
  sym_id :: "string option"
  position :: GridPosition
  isWinning :: "bool option"
  clusterId :: "int option"

record Cluster =
  cl_id :: int
  symbolId :: string
  positions :: "GridPosition list"
  cl_size :: nat
  payout :: number

record MultiplierSymbol =
  ms_position :: GridPosition
  ms_value :: number

record WinResult =
  clusters :: "Cluster list"
  totalPayout :: number
  wr_multiplier :: number
  scatterCount :: nat
  wr_freeSpinsAwarded :: number
  multiplierSymbols :: "MultiplierSymbol list"

text \<open>
  A \<open>Record<string, number>\<close> is a map from strings to numbers. The optional fields of a
  special symbol are options.
\<close>

record PaytableSymbol =
  ps_id :: string
  ps_name :: string
  ps_rarity :: number
  minCluster :: number
  payoutTable :: "string \<rightharpoonup> number"

record SpecialSymbol =
  sp_id :: string
  sp_name :: string
  sp_rarity :: number
  minCount :: "number option"
  freeSpinsTable :: "(string \<rightharpoonup> number) option"
  sp_values :: "number list option"
  sp_weights :: "number list option"

text \<open>
  The grid dimensions and the cascade cap are loop bounds and counts; the configuration
  is validated input and they are natural numbers.
\<close>

record GameConfig =
  symbols :: "PaytableSymbol list"
  specialSymbols :: "SpecialSymbol list"
  columns :: nat
  rows :: nat
  targetRTP :: number
  maxCascades :: nat

text \<open>
  The grid is \<open>grid[row][col]\<close>, a cell \<open>None\<close> where the source holds \<open>null\<close>. Every cell
  holds a symbol object of its own, as \<open>fillEmptyPositions\<close> creates them.
\<close>

type_synonym Grid = "Symbol option list list"

text \<open>
  The evaluator's grid has the configured dimensions: \<open>initializeGrid\<close> builds it so and
  every operation below keeps them. On such a grid every access the source makes after its
  bounds checks is inside the arrays. Outside it the source reads \<open>undefined\<close> (a falsy
  cell) past the end of a row and raises a TypeError past the last row; \<open>cell\<close> and
  \<open>set_cell\<close> read an empty cell and write nothing there, and the theorems are stated
  for grids of the configured dimensions.
\<close>

definition wf_grid :: "GameConfig \<Rightarrow> Grid \<Rightarrow> bool" where
  "wf_grid cfg g = (length g = rows cfg \<and> list_all (\<lambda>r. length r = columns cfg) g)"

definition cell :: "Grid \<Rightarrow> nat \<Rightarrow> nat \<Rightarrow> Symbol option" where
  "cell g r c = (if r < length g \<and> c < length (g ! r) then g ! r ! c else None)"

definition set_cell :: "Grid \<Rightarrow> nat \<Rightarrow> nat \<Rightarrow> Symbol option \<Rightarrow> Grid" where
  "set_cell g r c v = (if r < length g \<and> c < length (g ! r) then g[r := (g ! r)[c := v]] else g)"

definition initializeGrid :: "GameConfig \<Rightarrow> Grid" where
  "initializeGrid cfg = replicate (rows cfg) (replicate (columns cfg) None)"

text \<open>The decimal form of a count, as \<open>toString()\<close> gives it for a non-negative integer.\<close>

fun nat_toString :: "nat \<Rightarrow> string" where
  "nat_toString n =
     (if n < 10 then [char_of (48 + n)]
      else nat_toString (n div 10) @ [char_of (48 + n mod 10)])"

text \<open>\<open>table[key] || 0\<close>: a missing entry, and an entry 0, give 0.\<close>

definition lookup_or_zero :: "(string \<rightharpoonup> number) \<Rightarrow> string \<Rightarrow> number" where
  "lookup_or_zero table k = (case table k of None \<Rightarrow> 0 | Some v \<Rightarrow> v)"

subsection \<open>Derived operations of the generator used by the evaluator\<close>

text \<open>
  \<open>nextInt\<close> is \<open>Math.floor(next() * (max - min)) + min\<close>; the product is exact in a double
  for ranges below \<open>2^21\<close>, far above any pool size.
\<close>

definition nextInt :: "int \<Rightarrow> int \<Rightarrow> SeededRNG \<Rightarrow> int \<times> SeededRNG" where
  "nextInt lo hi r = (\<lfloor>fst (rng_next r) * of_int (hi - lo)\<rfloor> + lo, snd (rng_next r))"

text \<open>\<open>choice\<close>: \<open>array[nextInt(0, array.length)]\<close>, \<open>undefined\<close> when the index is outside.\<close>

definition choice :: "'a list \<Rightarrow> SeededRNG \<Rightarrow> 'a option \<times> SeededRNG" where
  "choice array r =
     (let (i, r') = nextInt 0 (int (length array)) r
      in (if 0 \<le> i \<and> nat i < length array then Some (array ! nat i) else None, r'))"

text \<open>
  \<open>weightedChoice\<close>. The running value \<open>random\<close> is \<open>None\<close> once a weight past the end of
  \<open>weights\<close> (an \<open>undefined\<close>) has been subtracted from it: it is NaN from then on and no
  comparison with it holds. The loop returns the first item at which \<open>random <= 0\<close>; when
  it ends without one the result is the last item, \<open>undefined\<close> for an empty list.
\<close>

fun weightedChoice_loop :: "'a list \<Rightarrow> number list \<Rightarrow> number option \<Rightarrow> 'a option" where
  "weightedChoice_loop [] weights random = None"
| "weightedChoice_loop (item # items) weights random =
     (let random' = (case (random, weights) of
                       (Some x, w # _) \<Rightarrow> Some (x - w)
                     | _ \<Rightarrow> None)
      in if (case random' of Some x \<Rightarrow> x \<le> 0 | None \<Rightarrow> False) then Some item
         else weightedChoice_loop items (tl weights) random')"

definition weightedChoice ::
  "'a list \<Rightarrow> number list \<Rightarrow> SeededRNG \<Rightarrow> 'a option \<times> SeededRNG" where
  "weightedChoice items weights r =
     (let totalWeight = foldl (\<lambda>sum weight. sum + weight) 0 weights;
          random = fst (rng_next r) * totalWeight
      in (case weightedChoice_loop items weights (Some random) of
            Some item \<Rightarrow> Some item
          | None \<Rightarrow> (if items = [] then None else Some (last items)),
          snd (rng_next r)))"

subsection \<open>Cluster detection\<close>

text \<open>
  The loop of \<open>floodFill\<close>. The stack is a list whose head is the top: \<open>pop\<close> takes the
  head, and the four neighbours pushed in the order left, right, up, down leave \<open>down\<close> on
  top. The set \<open>visited\<close> holds the keys \<open>col,row\<close>, one for each pair of integers.
\<close>

definition grid_cells :: "GameConfig \<Rightarrow> (int \<times> int) set" where
  "grid_cells cfg = {0 ..< int (columns cfg)} \<times> {0 ..< int (rows cfg)}"

function floodFill_loop ::
  "GameConfig \<Rightarrow> string \<Rightarrow> int \<Rightarrow> GridPosition list \<Rightarrow> Grid \<Rightarrow> (int \<times> int) set
     \<Rightarrow> GridPosition list \<Rightarrow> Grid \<times> (int \<times> int) set \<times> GridPosition list" where
  "floodFill_loop cfg symId cid [] g visited ps = (g, visited, ps)"
| "floodFill_loop cfg symId cid (p # stack) g visited ps =
     (if (col p, row p) \<in> visited then floodFill_loop cfg symId cid stack g visited ps
      else if col p < 0 \<or> col p \<ge> int (columns cfg) \<or> row p < 0 \<or> row p \<ge> int (rows cfg)
        then floodFill_loop cfg symId cid stack g visited ps
      else (case cell g (nat (row p)) (nat (col p)) of
              None \<Rightarrow> floodFill_loop cfg symId cid stack g visited ps
            | Some s \<Rightarrow>
                if sym_id s \<noteq> Some symId then floodFill_loop cfg symId cid stack g visited ps
                else floodFill_loop cfg symId cid
                       (\<lparr>col = col p, row = row p + 1\<rparr> # \<lparr>col = col p, row = row p - 1\<rparr>
                        # \<lparr>col = col p + 1, row = row p\<rparr> # \<lparr>col = col p - 1, row = row p\<rparr>
                        # stack)
                       (set_cell g (nat (row p)) (nat (col p)) (Some (s\<lparr>clusterId := Some cid\<rparr>)))
                       (insert (col p, row p) visited)
                       (ps @ [\<lparr>col = col p, row = row p\<rparr>])))"
  by pat_completeness auto
termination
proof (relation "inv_image (less_than <*lex*> less_than)
                   (\<lambda>(cfg, symId, cid, stack, g, visited, ps).
                      (card (grid_cells cfg - visited), length stack))")
  show "wf (inv_image (less_than <*lex*> less_than)
              (\<lambda>(cfg, symId, cid, stack, g, visited, ps).
                 (card (grid_cells cfg - visited), length stack)))"
    by (intro wf_inv_image wf_lex_prod wf_less_than)
next
  fix cfg :: GameConfig and symId :: string and cid :: int and p :: GridPosition
    and stack :: "GridPosition list" and g :: Grid and visited :: "(int \<times> int) set"
    and ps :: "GridPosition list" and s :: Symbol
  assume nv: "(col p, row p) \<notin> visited"
    and inb: "\<not> (col p < 0 \<or> int (columns cfg) \<le> col p \<or> row p < 0 \<or> int (rows cfg) \<le> row p)"
  have fin: "finite (grid_cells cfg - visited)"
    by (simp add: grid_cells_def)
  have mem: "(col p, row p) \<in> grid_cells cfg - visited"
    using nv inb by (simp add: grid_cells_def)
  have eq: "grid_cells cfg - insert (col p, row p) visited
          = (grid_cells cfg - visited) - {(col p, row p)}"
    by auto
  have "card (grid_cells cfg - insert (col p, row p) visited)
               < card (grid_cells cfg - visited)"
    unfolding eq by (rule card_Diff1_less [OF fin mem])
  then show "((cfg, symId, cid,
               \<lparr>col = col p, row = row p + 1\<rparr> # \<lparr>col = col p, row = row p - 1\<rparr>
               # \<lparr>col = col p + 1, row = row p\<rparr> # \<lparr>col = col p - 1, row = row p\<rparr> # stack,
               set_cell g (nat (row p)) (nat (col p)) (Some (s\<lparr>clusterId := Some cid\<rparr>)),
               insert (col p, row p) visited, ps @ [\<lparr>col = col p, row = row p\<rparr>]),
              (cfg, symId, cid, p # stack, g, visited, ps))
             \<in> inv_image (less_than <*lex*> less_than)
                  (\<lambda>(cfg, symId, cid, stack, g, visited, ps).
                     (card (grid_cells cfg - visited), length stack))"
    by simp
qed auto

text \<open>
  \<open>floodFill\<close>. A cell without a symbol, or whose symbol has no id or the empty id (all
  falsy), gives the cluster with id \<open>-1\<close> and no positions, and the counter \<open>clusterId\<close> is
  not advanced. Otherwise the cluster takes the next id and the loop runs from the start
  cell. The result is the cluster, the grid with its \<open>clusterId\<close> marks, the set
  \<open>visited\<close> and the counter.
\<close>

definition floodFill ::
  "GameConfig \<Rightarrow> Grid \<Rightarrow> int \<Rightarrow> nat \<Rightarrow> nat \<Rightarrow> (int \<times> int) set
     \<Rightarrow> Cluster \<times> Grid \<times> (int \<times> int) set \<times> int" where
  "floodFill cfg g nextId startCol startRow visited =
     (case (case cell g startRow startCol of None \<Rightarrow> None | Some s \<Rightarrow> sym_id s) of
        None \<Rightarrow> (\<lparr>cl_id = -1, symbolId = [], positions = [], cl_size = 0, payout = 0\<rparr>,
                 g, visited, nextId)
      | Some symId \<Rightarrow>
          if symId = [] then
            (\<lparr>cl_id = -1, symbolId = [], positions = [], cl_size = 0, payout = 0\<rparr>,
             g, visited, nextId)
          else
            (let (g', visited', ps) =
                   floodFill_loop cfg symId nextId [\<lparr>col = int startCol, row = int startRow\<rparr>]
                     g visited []
             in (\<lparr>cl_id = nextId, symbolId = symId, positions = ps, cl_size = length ps,
                  payout = 0\<rparr>,
                 g', visited', nextId + 1)))"

text \<open>
  \<open>findClusters\<close>: the two nested loops, rows outside and columns inside. The state of
  the loops is the list of clusters, the grid, the set \<open>visited\<close> and the counter.
\<close>

definition findClusters_cell ::
  "GameConfig \<Rightarrow> nat \<Rightarrow> Cluster list \<times> Grid \<times> (int \<times> int) set \<times> int \<Rightarrow> nat
     \<Rightarrow> Cluster list \<times> Grid \<times> (int \<times> int) set \<times> int" where
  "findClusters_cell cfg row' st col' =
     (case st of (cs, g, visited, nextId) \<Rightarrow>
        if (int col', int row') \<notin> visited \<and> cell g row' col' \<noteq> None then
          (case floodFill cfg g nextId col' row' visited of
             (cluster, g', visited', nextId') \<Rightarrow>
               if length (positions cluster) \<ge> 1 then (cs @ [cluster], g', visited', nextId')
               else (cs, g', visited', nextId'))
        else (cs, g, visited, nextId))"

definition findClusters :: "GameConfig \<Rightarrow> Grid \<Rightarrow> int \<Rightarrow> Cluster list \<times> Grid \<times> int" where
  "findClusters cfg g nextId =
     (case foldl (\<lambda>st row'. foldl (findClusters_cell cfg row') st [0 ..< columns cfg])
                 ([], g, {}, nextId) [0 ..< rows cfg] of
        (cs, g', visited, nextId') \<Rightarrow> (cs, g', nextId'))"

definition has_id :: "Symbol option \<Rightarrow> string \<Rightarrow> bool" where
  "has_id c name = (case c of None \<Rightarrow> False | Some s \<Rightarrow> sym_id s = Some name)"

definition countScatters :: "GameConfig \<Rightarrow> Grid \<Rightarrow> nat" where
  "countScatters cfg g =
     foldl (\<lambda>count row'.
              foldl (\<lambda>count col'. if has_id (cell g row' col') ''scatter'' then count + 1 else count)
                    count [0 ..< columns cfg])
           0 [0 ..< rows cfg]"

text \<open>
  \<open>findMultiplierSymbols\<close>. Each multiplier symbol draws its value with \<open>weightedChoice\<close>.
  With an empty \<open>values\<close> array the draw is \<open>undefined\<close> and the multiplier computed from
  it is NaN, which a \<open>number\<close> of this model cannot hold: that outcome is the error value.
\<close>

datatype EvalError = UndefinedMultiplierValue

fun findMultiplierSymbols_loop ::
  "number list \<Rightarrow> number list \<Rightarrow> Grid \<Rightarrow> (nat \<times> nat) list \<Rightarrow> MultiplierSymbol list \<Rightarrow> SeededRNG
     \<Rightarrow> EvalError + MultiplierSymbol list \<times> SeededRNG" where
  "findMultiplierSymbols_loop vals weights g [] multipliers r = Inr (multipliers, r)"
| "findMultiplierSymbols_loop vals weights g ((row', col') # rest) multipliers r =
     (if has_id (cell g row' col') ''multiplier'' then
        (case weightedChoice vals weights r of
           (None, r') \<Rightarrow> Inl UndefinedMultiplierValue
         | (Some v, r') \<Rightarrow>
             findMultiplierSymbols_loop vals weights g rest
               (multipliers @ [\<lparr>ms_position = \<lparr>col = int col', row = int row'\<rparr>, ms_value = v\<rparr>]) r')
      else findMultiplierSymbols_loop vals weights g rest multipliers r)"

definition findMultiplierSymbols ::
  "GameConfig \<Rightarrow> Grid \<Rightarrow> SeededRNG \<Rightarrow> EvalError + MultiplierSymbol list \<times> SeededRNG" where
  "findMultiplierSymbols cfg g r =
     (case find (\<lambda>s. sp_id s = ''multiplier'') (specialSymbols cfg) of
        None \<Rightarrow> Inr ([], r)
      | Some multiplierSymbol \<Rightarrow>
          (case (sp_values multiplierSymbol, sp_weights multiplierSymbol) of
             (Some vals, Some weights) \<Rightarrow>
               findMultiplierSymbols_loop vals weights g
                 (List.product [0 ..< rows cfg] [0 ..< columns cfg]) [] r
           | _ \<Rightarrow> Inr ([], r)))"

text \<open>The payout loop of \<open>evaluateWin\<close>: the clusters with their payouts set, and the sum.\<close>

fun payout_loop :: "GameConfig \<Rightarrow> number \<Rightarrow> Cluster list \<Rightarrow> number \<Rightarrow> Cluster list \<times> number" where
  "payout_loop cfg bet' [] tp = ([], tp)"
| "payout_loop cfg bet' (cluster # rest) tp =
     (case find (\<lambda>s. ps_id s = symbolId cluster) (symbols cfg) of
        None \<Rightarrow> (case payout_loop cfg bet' rest tp of (rest', tp') \<Rightarrow> (cluster # rest', tp'))
      | Some symbol \<Rightarrow>
          if of_nat (cl_size cluster) \<ge> minCluster symbol then
            (let cluster' = cluster\<lparr>payout :=
                    lookup_or_zero (payoutTable symbol) (nat_toString (cl_size cluster)) * bet'\<rparr>
             in case payout_loop cfg bet' rest (tp + payout cluster') of
                  (rest', tp') \<Rightarrow> (cluster' # rest', tp'))
          else (case payout_loop cfg bet' rest tp of
                  (rest', tp') \<Rightarrow> (cluster # rest', tp')))"

definition freeSpins_for :: "GameConfig \<Rightarrow> nat \<Rightarrow> number" where
  "freeSpins_for cfg count =
     (if count \<ge> 4 then
        (case find (\<lambda>s. sp_id s = ''scatter'') (specialSymbols cfg) of
           None \<Rightarrow> 0
         | Some scatterSymbol \<Rightarrow>
             (case freeSpinsTable scatterSymbol of
                None \<Rightarrow> 0
              | Some table \<Rightarrow> lookup_or_zero table (nat_toString count)))
      else 0)"

text \<open>
  \<open>evaluateWin\<close>. The counter \<open>clusterId\<close> is reset to 0, so it is not part of the state
  between calls. The result comes with the grid (marked with cluster ids) and the
  generator after the draws.
\<close>

definition evaluateWin ::
  "GameConfig \<Rightarrow> Grid \<Rightarrow> SeededRNG \<Rightarrow> number \<Rightarrow> bool
     \<Rightarrow> EvalError + WinResult \<times> Grid \<times> SeededRNG" where
  "evaluateWin cfg g r bet' isFreeSpin' =
     (case findClusters cfg g 0 of (cs, g1, nextId) \<Rightarrow>
        let count = countScatters cfg g1 in
        case (if isFreeSpin' then findMultiplierSymbols cfg g1 r else Inr ([], r)) of
          Inl e \<Rightarrow> Inl e
        | Inr (ms, r1) \<Rightarrow>
            (case payout_loop cfg bet' cs 0 of (cs', tp) \<Rightarrow>
               let awarded = freeSpins_for cfg count;
                   mult = (if isFreeSpin' \<and> length ms > 0
                           then min (foldl (\<lambda>acc m. acc * ms_value m) 1 ms) 1000 else 1)
               in Inr (\<lparr>clusters = cs', totalPayout = tp * mult, wr_multiplier = mult,
                        scatterCount = count, wr_freeSpinsAwarded = awarded,
                        multiplierSymbols = ms\<rparr>, g1, r1)))"

text \<open>\<open>removeWinningSymbols\<close>: every position of every cluster that holds a symbol is emptied.\<close>

definition remove_position :: "Grid \<Rightarrow> GridPosition \<Rightarrow> Grid" where
  "remove_position g pos =
     (if 0 \<le> row pos \<and> 0 \<le> col pos \<and> cell g (nat (row pos)) (nat (col pos)) \<noteq> None
      then set_cell g (nat (row pos)) (nat (col pos)) None else g)"

definition removeWinningSymbols :: "Grid \<Rightarrow> Cluster list \<Rightarrow> Grid" where
  "removeWinningSymbols g cs = foldl (\<lambda>g cluster. foldl remove_position g (positions cluster)) g cs"

text \<open>
  \<open>applyGravity\<close>, one column at a time: the symbols of the column are collected from the
  bottom row up, the column is cleared, and the symbols are put back from the bottom row
  up, each with its \<open>position\<close> rewritten.
\<close>

definition applyGravity_column :: "GameConfig \<Rightarrow> Grid \<Rightarrow> nat \<Rightarrow> Grid" where
  "applyGravity_column cfg g col' =
     (let column = List.map_filter (\<lambda>row'. cell g row' col') (rev [0 ..< rows cfg]);
          g1 = foldl (\<lambda>g row'. set_cell g row' col' None) g [0 ..< rows cfg]
      in foldl (\<lambda>g i. set_cell g (rows cfg - 1 - i) col'
                  (Some ((column ! i)\<lparr>position := \<lparr>col = int col', row = int (rows cfg - 1 - i)\<rparr>\<rparr>)))
               g1 [0 ..< length column])"

definition applyGravity :: "GameConfig \<Rightarrow> Grid \<Rightarrow> Grid" where
  "applyGravity cfg g = foldl (applyGravity_column cfg) g [0 ..< columns cfg]"

text \<open>\<open>fillEmptyPositions\<close>: columns outside, rows inside; one \<open>choice\<close> for each empty cell.\<close>

definition fillEmptyPositions_cell ::
  "string list \<Rightarrow> nat \<Rightarrow> Grid \<times> SeededRNG \<Rightarrow> nat \<Rightarrow> Grid \<times> SeededRNG" where
  "fillEmptyPositions_cell symbolPool col' st row' =
     (case st of (g, r) \<Rightarrow>
        if cell g row' col' = None then
          (case choice symbolPool r of
             (symId, r') \<Rightarrow>
               (set_cell g row' col'
                  (Some \<lparr>sym_id = symId, position = \<lparr>col = int col', row = int row'\<rparr>,
                         isWinning = None, clusterId = None\<rparr>), r'))
        else (g, r))"

definition fillEmptyPositions ::
  "GameConfig \<Rightarrow> Grid \<Rightarrow> string list \<Rightarrow> SeededRNG \<Rightarrow> Grid \<times> SeededRNG" where
  "fillEmptyPositions cfg g symbolPool r =
     foldl (\<lambda>st col'. foldl (fillEmptyPositions_cell symbolPool col') st [0 ..< rows cfg])
           (g, r) [0 ..< columns cfg]"

text \<open>
  \<open>generateSymbolPool\<close>: \<open>Math.round(rarity * multiplier)\<close> copies of each id, the regular
  symbols first; the multiplier is \<open>volatilityMultipliers?.[id] || 1\<close>.
\<close>

definition rarity_multiplier :: "(string \<rightharpoonup> number) option \<Rightarrow> string \<Rightarrow> number" where
  "rarity_multiplier volatilityMultipliers name =
     (case volatilityMultipliers of
        None \<Rightarrow> 1
      | Some table \<Rightarrow> (case table name of None \<Rightarrow> 1 | Some v \<Rightarrow> if v = 0 then 1 else v))"

definition generateSymbolPool :: "GameConfig \<Rightarrow> (string \<rightharpoonup> number) option \<Rightarrow> string list" where
  "generateSymbolPool cfg volatilityMultipliers =
     concat (map (\<lambda>s. replicate (nat (round (ps_rarity s * rarity_multiplier volatilityMultipliers (ps_id s))))
                        (ps_id s)) (symbols cfg))
     @ concat (map (\<lambda>s. replicate (nat (round (sp_rarity s * rarity_multiplier volatilityMultipliers (sp_id s))))
                          (sp_id s)) (specialSymbols cfg))"

text \<open>The two recursive equations below rewrite without end and are applied by hand.\<close>

declare floodFill_loop.simps [simp del]

declare nat_toString.simps [simp del]

section \<open>An example configuration\<close>

text \<open>
  A \<open>2 \<times> 2\<close> grid with three connected \<open>red\<close> symbols and one \<open>blue\<close>: \<open>red\<close> pays 7
  for a cluster of exactly three, \<open>blue\<close> is not in the paytable.
\<close>

definition example_symbol :: "string \<Rightarrow> nat \<Rightarrow> nat \<Rightarrow> Symbol option" where
  "example_symbol n c r =
     Some \<lparr>sym_id = Some n, position = \<lparr>col = int c, row = int r\<rparr>, isWinning = None,
           clusterId = None\<rparr>"

definition example_config :: GameConfig where
  "example_config =
     \<lparr>symbols = [\<lparr>ps_id = ''red'', ps_name = ''Red'', ps_rarity = 3, minCluster = 2,
                   payoutTable = [''3'' \<mapsto> 7]\<rparr>],
      specialSymbols = [], columns = 2, rows = 2, targetRTP = 96, maxCascades = 2\<rparr>"

definition example_grid :: Grid where
  "example_grid = [[example_symbol ''red'' 0 0, example_symbol ''blue'' 1 0],
                   [example_symbol ''red'' 0 1, example_symbol ''red'' 1 1]]"

definition example_rng :: SeededRNG where
  "example_rng = \<lparr>rng_a = 1, rng_b = 2, rng_c = 3, rng_d = 4\<rparr>"

section \<open>Seeding is a function of the seed\<close>

lemma setSeed_eq_constructor:
  "setSeed numToString r sd = SeededRNG_constructor numToString sd"
  by (cases r) (simp add: setSeed_def SeededRNG_constructor_def Let_def split: prod.splits)

text \<open>
  C1. Seeding is a pure function of the seed. For every seed (a string, or a number through
  its string form) and every existing generator \<open>r\<close>, \<open>setSeed\<close> leaves \<open>r\<close> with exactly the
  four state words of a freshly constructed generator; two generators re-seeded with the
  same seed hold the same state whatever they held before; and the \<open>next()\<close> sequences of
  every length \<open>n\<close> agree.
\<close>

theorem seeding_deterministic:
  "getState (setSeed numToString r sd) = getState (SeededRNG_constructor numToString sd)
   \<and> setSeed numToString r sd = SeededRNG_constructor numToString sd
   \<and> setSeed numToString r1 sd = setSeed numToString r2 sd
   \<and> next_sequence n (setSeed numToString r sd)
       = next_sequence n (SeededRNG_constructor numToString sd)
   \<and> next_sequence n (setSeed numToString r1 sd) = next_sequence n (setSeed numToString r2 sd)"
  by (simp add: setSeed_eq_constructor)

section \<open>State machine: the spin entry and rejected events\<close>

text \<open>The transitions of the table that can fire on \<open>event\<close>: from the current state, guard passing.\<close>

definition enabled_transitions :: "GameStateMachine \<Rightarrow> GameEvent \<Rightarrow> StateTransition list" where
  "enabled_transitions m event =
     filter (\<lambda>t. t_from t = currentState m \<and> t_event t = event \<and> guard_passes (stateData m) t)
            initializeTransitions"

lemma find_enabled:
  "find (guard_passes d) (filter (\<lambda>t. t_from t = s \<and> t_event t = e) ts) = None
   \<longleftrightarrow> filter (\<lambda>t. t_from t = s \<and> t_event t = e \<and> guard_passes d t) ts = []"
  by (auto simp: find_None_iff filter_empty_conv)

text \<open>
  C8, as the code has it. In state IDLE, for every state-data record whose \<open>balance\<close> and
  \<open>bet\<close> are numbers (neither is NaN), the event SPIN has exactly two outcomes, decided by
  the state data: with \<open>balance \<ge> bet\<close> the machine moves to SPINNING, the bet is taken from
  the balance and \<open>cascadeCount\<close>, \<open>totalWin\<close>, \<open>multiplier\<close> are reset to 0, 0, 1; with
  \<open>balance < bet\<close> it moves to GAME_OVER and the state data, the balance with it, is the one
  before. Both are successful transitions (the call returns \<open>true\<close>, the history and the
  listeners see them).
\<close>

theorem processEvent_IDLE_SPIN:
  assumes "currentState m = IDLE"
    and "balance (stateData m) = Num b" and "bet (stateData m) = Num x"
  shows "processEvent m SPIN =
     (if x \<le> b
      then (True, notifyListeners
              (m\<lparr>stateData := (stateData m)\<lparr>balance := Num (b - x), cascadeCount := Num 0,
                                             totalWin := Num 0, multiplier := Num 1\<rparr>,
                 currentState := SPINNING,
                 stateHistory := stateHistory m @ [(SPINNING, SPIN)]\<rparr>) IDLE SPINNING SPIN)
      else (True, notifyListeners
              (m\<lparr>stateData := stateData m, currentState := GAME_OVER,
                 stateHistory := stateHistory m @ [(GAME_OVER, SPIN)]\<rparr>) IDLE GAME_OVER SPIN))
   \<and> currentState (snd (processEvent m SPIN)) = (if x \<le> b then SPINNING else GAME_OVER)
   \<and> stateData (snd (processEvent m SPIN))
       = (if x \<le> b
          then (stateData m)\<lparr>balance := Num (b - x), cascadeCount := Num 0, totalWin := Num 0,
                              multiplier := Num 1\<rparr>
          else stateData m)"
  using assms
  by (simp add: processEvent_def initializeTransitions_def guard_passes_def Let_def
      notifyListeners_def)

theorem processEvent_IDLE_SPIN_witness:
  "currentState (GameStateMachine_constructor (\<lambda>d. d)) = IDLE
   \<and> balance (stateData (GameStateMachine_constructor (\<lambda>d. d))) = Num 1000
   \<and> bet (stateData (GameStateMachine_constructor (\<lambda>d. d))) = Num 1
   \<and> currentState (snd (processEvent (GameStateMachine_constructor (\<lambda>d. d)) SPIN)) = SPINNING
   \<and> balance (stateData (snd (processEvent (GameStateMachine_constructor (\<lambda>d. d)) SPIN))) = Num 999
   \<and> currentState (GameStateMachine_constructor (\<lambda>d. d\<lparr>balance := Num (1 / 2)\<rparr>)) = IDLE
   \<and> currentState (snd (processEvent
        (GameStateMachine_constructor (\<lambda>d. d\<lparr>balance := Num (1 / 2)\<rparr>)) SPIN)) = GAME_OVER
   \<and> balance (stateData (snd (processEvent
        (GameStateMachine_constructor (\<lambda>d. d\<lparr>balance := Num (1 / 2)\<rparr>)) SPIN))) = Num (1 / 2)"
proof -
  have a: "currentState (GameStateMachine_constructor (\<lambda>d. d)) = IDLE"
    "balance (stateData (GameStateMachine_constructor (\<lambda>d. d))) = Num 1000"
    "bet (stateData (GameStateMachine_constructor (\<lambda>d. d))) = Num 1"
    by (simp_all add: GameStateMachine_constructor_def)
  have b: "currentState (GameStateMachine_constructor (\<lambda>d. d\<lparr>balance := Num (1 / 2)\<rparr>)) = IDLE"
    "balance (stateData (GameStateMachine_constructor (\<lambda>d. d\<lparr>balance := Num (1 / 2)\<rparr>))) = Num (1 / 2)"
    "bet (stateData (GameStateMachine_constructor (\<lambda>d. d\<lparr>balance := Num (1 / 2)\<rparr>))) = Num 1"
    by (simp_all add: GameStateMachine_constructor_def)
  show ?thesis
    using processEvent_IDLE_SPIN [OF a] processEvent_IDLE_SPIN [OF b] a b
    by (simp add: GameStateMachine_constructor_def notifyListeners_def)
qed

text \<open>
  The claim C8 as stated, for every state-data record, fails on a record whose balance is
  NaN (the constructor stores the initial data it is given): both guards of the two SPIN
  rules are false, no transition fires, and \<open>processEvent\<close> warns and returns \<open>false\<close> with
  the machine still in IDLE: neither SPINNING nor GAME_OVER.
\<close>

theorem processEvent_IDLE_SPIN_counterexample:
  "currentState (GameStateMachine_constructor (\<lambda>d. d\<lparr>balance := NaN\<rparr>)) = IDLE
   \<and> processEvent (GameStateMachine_constructor (\<lambda>d. d\<lparr>balance := NaN\<rparr>)) SPIN
       = (False, GameStateMachine_constructor (\<lambda>d. d\<lparr>balance := NaN\<rparr>)
                   \<lparr>console := [InvalidTransition IDLE SPIN]\<rparr>)
   \<and> currentState (snd (processEvent (GameStateMachine_constructor (\<lambda>d. d\<lparr>balance := NaN\<rparr>)) SPIN))
       = IDLE
   \<and> currentState (snd (processEvent (GameStateMachine_constructor (\<lambda>d. d\<lparr>balance := NaN\<rparr>)) SPIN))
       \<noteq> SPINNING
   \<and> currentState (snd (processEvent (GameStateMachine_constructor (\<lambda>d. d\<lparr>balance := NaN\<rparr>)) SPIN))
       \<noteq> GAME_OVER"
  by (simp add: processEvent_def initializeTransitions_def guard_passes_def Let_def
      GameStateMachine_constructor_def)

text \<open>
  C9. An event with no transition from the current state whose guard passes (none in the
  table at all, or only ones whose guard fails) is rejected: \<open>processEvent\<close> returns
  \<open>false\<close>, the current state, the state data (no action ran), the history and the record
  of listener calls are what they were, and the only effect is the warning on the console.
  The call is a total function: rejection raises nothing.
\<close>

theorem processEvent_rejected:
  assumes "enabled_transitions m event = []"
  shows "processEvent m event =
           (False, m\<lparr>console := console m @ [InvalidTransition (currentState m) event]\<rparr>)
         \<and> fst (processEvent m event) = False
         \<and> currentState (snd (processEvent m event)) = currentState m
         \<and> stateData (snd (processEvent m event)) = stateData m
         \<and> stateHistory (snd (processEvent m event)) = stateHistory m
         \<and> notified (snd (processEvent m event)) = notified m"
proof -
  have "find (guard_passes (stateData m))
          (filter (\<lambda>t. t_from t = currentState m \<and> t_event t = event) initializeTransitions) = None"
    using assms by (simp add: find_enabled enabled_transitions_def)
  then show ?thesis by (simp add: processEvent_def)
qed

theorem processEvent_rejected_witness:
  "enabled_transitions (GameStateMachine_constructor (\<lambda>d. d)\<lparr>listeners := [0]\<rparr>) TUMBLE_COMPLETE = []
   \<and> processEvent (GameStateMachine_constructor (\<lambda>d. d)\<lparr>listeners := [0]\<rparr>) TUMBLE_COMPLETE
       = (False, GameStateMachine_constructor (\<lambda>d. d)
                   \<lparr>listeners := [0], console := [InvalidTransition IDLE TUMBLE_COMPLETE]\<rparr>)
   \<and> enabled_transitions
        (GameStateMachine_constructor (\<lambda>d. d)\<lparr>currentState := FREE_SPINS\<rparr>) SPIN = []
   \<and> currentState (snd (processEvent
        (GameStateMachine_constructor (\<lambda>d. d)\<lparr>currentState := FREE_SPINS\<rparr>) SPIN)) = FREE_SPINS"
proof -
  have a: "enabled_transitions (GameStateMachine_constructor (\<lambda>d. d)\<lparr>listeners := [0]\<rparr>)
             TUMBLE_COMPLETE = []"
    by (simp add: enabled_transitions_def initializeTransitions_def
        GameStateMachine_constructor_def)
  have b: "enabled_transitions
             (GameStateMachine_constructor (\<lambda>d. d)\<lparr>currentState := FREE_SPINS\<rparr>) SPIN = []"
    by (simp add: enabled_transitions_def initializeTransitions_def guard_passes_def
        GameStateMachine_constructor_def)
  show ?thesis
    using a b processEvent_rejected [OF a] processEvent_rejected [OF b]
    by (simp add: GameStateMachine_constructor_def)
qed

section \<open>Grids, marks and the flood fill\<close>

definition dims :: "Grid \<Rightarrow> nat list" where
  "dims g = map length g"

definition unmark :: "Grid \<Rightarrow> Grid" where
  "unmark g = map (map (map_option (\<lambda>s. s\<lparr>clusterId := None\<rparr>))) g"

definition pos_key :: "GridPosition \<Rightarrow> int \<times> int" where
  "pos_key p = (col p, row p)"

definition id_at :: "Grid \<Rightarrow> GridPosition \<Rightarrow> string option" where
  "id_at g p =
     (if 0 \<le> row p \<and> 0 \<le> col p
      then (case cell g (nat (row p)) (nat (col p)) of None \<Rightarrow> None | Some s \<Rightarrow> sym_id s)
      else None)"

definition adjacent :: "GridPosition \<Rightarrow> GridPosition \<Rightarrow> bool" where
  "adjacent p q =
     ((col p = col q \<and> (row p = row q + 1 \<or> row q = row p + 1))
      \<or> (row p = row q \<and> (col p = col q + 1 \<or> col q = col p + 1)))"

fun linked_rev :: "GridPosition list \<Rightarrow> bool" where
  "linked_rev [] = True"
| "linked_rev [p] = True"
| "linked_rev (p # q # ps) = (list_ex (\<lambda>x. adjacent x p) (q # ps) \<and> linked_rev (q # ps))"

definition linked :: "GridPosition list \<Rightarrow> bool" where
  "linked ps = linked_rev (rev ps)"

lemma map_eq_replicate:
  "(map f xs = replicate n c) = (length xs = n \<and> list_all (\<lambda>x. f x = c) xs)"
proof (induction xs arbitrary: n)
  case Nil
  show ?case by auto
next
  case (Cons a xs)
  show ?case by (cases n) (auto simp: Cons.IH)
qed

lemma wf_grid_dims: "wf_grid cfg g \<longleftrightarrow> dims g = replicate (rows cfg) (columns cfg)"
  by (simp add: wf_grid_def dims_def map_eq_replicate)

lemma dims_set_cell [simp]: "dims (set_cell g r c v) = dims g"
  by (simp add: dims_def set_cell_def map_update list_update_same_conv)

lemma cell_set_cell:
  "cell (set_cell g r c v) r' c' =
     (if r' = r \<and> c' = c \<and> r < length g \<and> c < length (g ! r) then v else cell g r' c')"
  by (auto simp: cell_def set_cell_def nth_list_update)

lemma cell_unmark: "cell (unmark g) r c = map_option (\<lambda>s. s\<lparr>clusterId := None\<rparr>) (cell g r c)"
  by (auto simp: cell_def unmark_def)

lemma dims_unmark [simp]: "dims (unmark g) = dims g"
  by (simp add: dims_def unmark_def comp_def)

lemma unmark_set_cell_mark:
  assumes "cell g r c = Some s"
  shows "unmark (set_cell g r c (Some (s\<lparr>clusterId := x\<rparr>))) = unmark g"
proof -
  let ?G = "map_option (\<lambda>s. s\<lparr>clusterId := None\<rparr>)"
  let ?row' = "(g ! r)[c := Some (s\<lparr>clusterId := x\<rparr>)]"
  from assms have r: "r < length g" and c: "c < length (g ! r)" and v: "g ! r ! c = Some s"
    by (auto simp: cell_def split: if_splits)
  have roweq: "map ?G ?row' = map ?G (g ! r)"
  proof (rule nth_equalityI)
    show "length (map ?G ?row') = length (map ?G (g ! r))" by simp
  next
    fix i assume "i < length (map ?G ?row')"
    then show "map ?G ?row' ! i = map ?G (g ! r) ! i"
      using c v by (cases "i = c") simp_all
  qed
  have "unmark (set_cell g r c (Some (s\<lparr>clusterId := x\<rparr>))) = map (map ?G) (g[r := ?row'])"
    using r c by (simp add: unmark_def set_cell_def)
  also have "\<dots> = (map (map ?G) g)[r := map ?G ?row']"
    by (simp add: map_update)
  also have "\<dots> = (map (map ?G) g)[r := map (map ?G) g ! r]"
    using roweq r by simp
  also have "\<dots> = map (map ?G) g"
    by (rule list_update_id)
  finally show ?thesis by (simp add: unmark_def)
qed

lemma unmark_eq_cell:
  assumes "unmark g' = unmark g"
  shows "map_option (\<lambda>s. s\<lparr>clusterId := None\<rparr>) (cell g' r c)
           = map_option (\<lambda>s. s\<lparr>clusterId := None\<rparr>) (cell g r c)"
  using assms cell_unmark [of g' r c] cell_unmark [of g r c] by simp

lemma unmark_eq_dims: "unmark g' = unmark g \<Longrightarrow> dims g' = dims g"
  using dims_unmark by metis

lemma unmark_eq_None: "unmark g' = unmark g \<Longrightarrow> (cell g' r c = None) = (cell g r c = None)"
  using unmark_eq_cell [of g' g r c] by (cases "cell g' r c"; cases "cell g r c") auto

lemma unmark_eq_sym_id:
  assumes "unmark g' = unmark g"
  shows "(case cell g' r c of None \<Rightarrow> None | Some s \<Rightarrow> sym_id s)
           = (case cell g r c of None \<Rightarrow> None | Some s \<Rightarrow> sym_id s)"
proof -
  have "map_option sym_id (map_option (\<lambda>s. s\<lparr>clusterId := None\<rparr>) (cell g' r c))
          = map_option sym_id (map_option (\<lambda>s. s\<lparr>clusterId := None\<rparr>) (cell g r c))"
    using unmark_eq_cell [OF assms] by simp
  then show ?thesis
    by (cases "cell g' r c"; cases "cell g r c") (auto simp: option.map_comp comp_def)
qed

lemma unmark_eq_id_at: "unmark g' = unmark g \<Longrightarrow> id_at g' p = id_at g p"
  using unmark_eq_sym_id [of g' g "nat (row p)" "nat (col p)"] by (simp add: id_at_def)

lemma unmark_eq_has_id: "unmark g' = unmark g \<Longrightarrow> has_id (cell g' r c) n = has_id (cell g r c) n"
  using unmark_eq_sym_id [of g' g r c]
  by (cases "cell g' r c"; cases "cell g r c") (auto simp: has_id_def)

lemma GridPosition_eta [simp]: "\<lparr>col = col (p::GridPosition), row = row p\<rparr> = p"
  by (cases p) simp

definition ff_new :: "GameConfig \<Rightarrow> string \<Rightarrow> Grid \<Rightarrow> (int \<times> int) set \<Rightarrow> GridPosition list \<Rightarrow> bool" where
  "ff_new cfg symId g visited new =
     (distinct (map pos_key new) \<and> pos_key ` set new \<inter> visited = {}
      \<and> list_all (\<lambda>p. pos_key p \<in> grid_cells cfg \<and> id_at g p = Some symId) new)"

lemma ff_new_Nil [simp]: "ff_new cfg symId g visited []"
  by (simp add: ff_new_def)

lemma ff_new_Cons:
  assumes "ff_new cfg symId g2 (insert (pos_key p) visited) new"
    and "unmark g2 = unmark g" and "pos_key p \<notin> visited"
    and "pos_key p \<in> grid_cells cfg" and "id_at g p = Some symId"
  shows "ff_new cfg symId g visited (p # new)"
proof -
  have "\<And>q. id_at g2 q = id_at g q"
    using assms(2) by (rule unmark_eq_id_at)
  then show ?thesis
    using assms by (auto simp: ff_new_def list_all_iff)
qed

lemma floodFill_loop_inv:
  "floodFill_loop cfg symId cid stack g visited ps = (g', visited', ps') \<Longrightarrow>
     unmark g' = unmark g \<and>
     (\<exists>new. ps' = ps @ new \<and> visited' = visited \<union> pos_key ` set new \<and> ff_new cfg symId g visited new)"
proof (induction cfg symId cid stack g visited ps arbitrary: g' visited' ps'
       rule: floodFill_loop.induct)
  case (1 cfg symId cid g visited ps)
  then show ?case by (simp add: floodFill_loop.simps(1))
next
  case (2 cfg symId cid p stack g visited ps)
  note step = floodFill_loop.simps(2) [of cfg symId cid p stack g visited ps]
  show ?case
  proof (cases "(col p, row p) \<in> visited")
    case True
    with 2 show ?thesis by (simp add: step)
  next
    case nv: False
    show ?thesis
    proof (cases "col p < 0 \<or> col p \<ge> int (columns cfg) \<or> row p < 0 \<or> row p \<ge> int (rows cfg)")
      case True
      with nv 2 show ?thesis by (simp add: step)
    next
      case inb: False
      show ?thesis
      proof (cases "cell g (nat (row p)) (nat (col p))")
        case None
        with nv inb 2 show ?thesis by (simp add: step)
      next
        case (Some s)
        show ?thesis
        proof (cases "sym_id s \<noteq> Some symId")
          case True
          with nv inb Some 2 show ?thesis by (simp add: step)
        next
          case same: False
          let ?g2 = "set_cell g (nat (row p)) (nat (col p)) (Some (s\<lparr>clusterId := Some cid\<rparr>))"
          let ?stack2 = "\<lparr>col = col p, row = row p + 1\<rparr> # \<lparr>col = col p, row = row p - 1\<rparr>
                        # \<lparr>col = col p + 1, row = row p\<rparr> # \<lparr>col = col p - 1, row = row p\<rparr> # stack"
          have call: "floodFill_loop cfg symId cid ?stack2 ?g2 (insert (col p, row p) visited)
                        (ps @ [p]) = (g', visited', ps')"
            using "2.prems" nv inb Some same by (simp add: step)
          have ih: "unmark g' = unmark ?g2 \<and>
                (\<exists>new. ps' = (ps @ [p]) @ new \<and>
                   visited' = insert (col p, row p) visited \<union> pos_key ` set new \<and>
                   ff_new cfg symId ?g2 (insert (col p, row p) visited) new)"
            using "2.IH"(5) [OF nv inb Some _ ] same call by simp
          have um: "unmark ?g2 = unmark g"
            by (rule unmark_set_cell_mark [OF Some])
          from ih obtain new where new: "ps' = (ps @ [p]) @ new"
            "visited' = insert (col p, row p) visited \<union> pos_key ` set new"
            "ff_new cfg symId ?g2 (insert (col p, row p) visited) new"
            by blast
          have idp: "id_at g p = Some symId"
            using inb Some same by (simp add: id_at_def)
          have cellp: "pos_key p \<in> grid_cells cfg"
            using inb by (simp add: pos_key_def grid_cells_def)
          have "ff_new cfg symId g visited (p # new)"
            using ff_new_Cons [of cfg symId ?g2 p visited new g] new(3) um nv idp cellp
            by (simp add: pos_key_def)
          moreover have "ps' = ps @ (p # new)" using new(1) by simp
          moreover have "visited' = visited \<union> pos_key ` set (p # new)"
            using new(2) by (simp add: pos_key_def)
          ultimately show ?thesis using ih um by metis
        qed
      qed
    qed
  qed
qed

lemma linked_Nil [simp]: "linked []"
  by (simp add: linked_def)

lemma linked_single [simp]: "linked [p]"
  by (simp add: linked_def)

lemma linked_snoc:
  "linked (ps @ [p]) = ((ps = [] \<or> list_ex (\<lambda>x. adjacent x p) ps) \<and> linked ps)"
proof (cases "rev ps")
  case Nil
  then show ?thesis by (simp add: linked_def)
next
  case (Cons q qs)
  then have ne: "ps \<noteq> []" by auto
  have "set (q # qs) = set ps" using Cons by (metis set_rev)
  then have "list_ex (\<lambda>x. adjacent x p) (q # qs) = list_ex (\<lambda>x. adjacent x p) ps"
    by (simp only: list_ex_iff)
  then show ?thesis using Cons ne by (simp add: linked_def)
qed

definition stack_ok :: "GridPosition list \<Rightarrow> GridPosition list \<Rightarrow> bool" where
  "stack_ok stack ps =
     (list_all (\<lambda>q. list_ex (\<lambda>p. adjacent p q) ps) stack \<or> (ps = [] \<and> length stack \<le> 1))"

lemma stack_ok_tl: "stack_ok (p # stack) ps \<Longrightarrow> stack_ok stack ps"
  by (auto simp: stack_ok_def)

lemma stack_ok_push:
  assumes "stack_ok (p # stack) ps"
  shows "stack_ok (\<lparr>col = col p, row = row p + 1\<rparr> # \<lparr>col = col p, row = row p - 1\<rparr>
                   # \<lparr>col = col p + 1, row = row p\<rparr> # \<lparr>col = col p - 1, row = row p\<rparr> # stack)
                  (ps @ [p])"
proof -
  have "list_all (\<lambda>q. list_ex (\<lambda>x. adjacent x q) (ps @ [p])) stack"
    using assms by (auto simp: stack_ok_def list_all_iff list_ex_iff)
  then show ?thesis
    by (simp add: stack_ok_def adjacent_def list_ex_iff)
qed

lemma stack_ok_linked:
  assumes "stack_ok (p # stack) ps" and "linked ps"
  shows "linked (ps @ [p])"
  using assms by (auto simp: stack_ok_def linked_snoc)

lemma floodFill_loop_linked:
  "floodFill_loop cfg symId cid stack g visited ps = (g', visited', ps') \<Longrightarrow>
     stack_ok stack ps \<Longrightarrow> linked ps \<Longrightarrow> linked ps'"
proof (induction cfg symId cid stack g visited ps arbitrary: g' visited' ps'
       rule: floodFill_loop.induct)
  case (1 cfg symId cid g visited ps)
  then show ?case by (simp add: floodFill_loop.simps(1))
next
  case (2 cfg symId cid p stack g visited ps)
  note step = floodFill_loop.simps(2) [of cfg symId cid p stack g visited ps]
  note ok = stack_ok_tl [OF "2.prems"(2)]
  show ?case
  proof (cases "(col p, row p) \<in> visited")
    case True
    then have "floodFill_loop cfg symId cid stack g visited ps = (g', visited', ps')"
      using "2.prems"(1) by (simp add: step)
    then show ?thesis using "2.IH"(1) [OF True] ok "2.prems"(3) by blast
  next
    case nv: False
    show ?thesis
    proof (cases "col p < 0 \<or> col p \<ge> int (columns cfg) \<or> row p < 0 \<or> row p \<ge> int (rows cfg)")
      case True
      then have "floodFill_loop cfg symId cid stack g visited ps = (g', visited', ps')"
        using "2.prems"(1) nv by (simp add: step)
      then show ?thesis using "2.IH"(2) [OF nv True] ok "2.prems"(3) by blast
    next
      case inb: False
      show ?thesis
      proof (cases "cell g (nat (row p)) (nat (col p))")
        case None
        then have "floodFill_loop cfg symId cid stack g visited ps = (g', visited', ps')"
          using "2.prems"(1) nv inb by (simp add: step)
        then show ?thesis using "2.IH"(3) [OF nv inb None] ok "2.prems"(3) by blast
      next
        case (Some s)
        show ?thesis
        proof (cases "sym_id s \<noteq> Some symId")
          case True
          then have "floodFill_loop cfg symId cid stack g visited ps = (g', visited', ps')"
            using "2.prems"(1) nv inb Some by (simp add: step)
          then show ?thesis using "2.IH"(4) [OF nv inb Some True] ok "2.prems"(3) by blast
        next
          case same: False
          let ?g2 = "set_cell g (nat (row p)) (nat (col p)) (Some (s\<lparr>clusterId := Some cid\<rparr>))"
          let ?stack2 = "\<lparr>col = col p, row = row p + 1\<rparr> # \<lparr>col = col p, row = row p - 1\<rparr>
                        # \<lparr>col = col p + 1, row = row p\<rparr> # \<lparr>col = col p - 1, row = row p\<rparr> # stack"
          have call: "floodFill_loop cfg symId cid ?stack2 ?g2 (insert (col p, row p) visited)
                        (ps @ [p]) = (g', visited', ps')"
            using "2.prems"(1) nv inb Some same by (simp add: step)
          have a: "stack_ok ?stack2 (ps @ [p])"
            by (rule stack_ok_push [OF "2.prems"(2)])
          have b: "linked (ps @ [p])"
            by (rule stack_ok_linked [OF "2.prems"(2) "2.prems"(3)])
          show ?thesis
            using "2.IH"(5) [OF nv inb Some same] call a b by simp
        qed
      qed
    qed
  qed
qed

text \<open>The start cell is taken when it passes the tests of the loop.\<close>

lemma floodFill_loop_start:
  assumes "floodFill_loop cfg symId cid [p] g visited [] = (g', visited', ps')"
    and "pos_key p \<notin> visited" and "pos_key p \<in> grid_cells cfg" and "id_at g p = Some symId"
  shows "ps' \<noteq> [] \<and> hd ps' = p"
proof -
  from assms(3) have inb: "\<not> (col p < 0 \<or> col p \<ge> int (columns cfg) \<or> row p < 0 \<or> row p \<ge> int (rows cfg))"
    by (auto simp: pos_key_def grid_cells_def)
  from assms(4) inb obtain s where s: "cell g (nat (row p)) (nat (col p)) = Some s"
    and sid: "sym_id s = Some symId"
    by (auto simp: id_at_def split: option.splits if_splits)
  let ?g2 = "set_cell g (nat (row p)) (nat (col p)) (Some (s\<lparr>clusterId := Some cid\<rparr>))"
  let ?stack2 = "[\<lparr>col = col p, row = row p + 1\<rparr>, \<lparr>col = col p, row = row p - 1\<rparr>,
                  \<lparr>col = col p + 1, row = row p\<rparr>, \<lparr>col = col p - 1, row = row p\<rparr>]"
  have "floodFill_loop cfg symId cid ?stack2 ?g2 (insert (col p, row p) visited) ([] @ [p])
          = (g', visited', ps')"
    using assms(1,2) inb s sid
    by (simp add: floodFill_loop.simps(2) [of cfg symId cid p "[]" g visited "[]"] pos_key_def)
  from floodFill_loop_inv [OF this] obtain new where "ps' = ([] @ [p]) @ new" by blast
  then show ?thesis by simp
qed

lemma foldl_nested:
  "foldl (\<lambda>st x. foldl (f x) st ys) st xs
     = foldl (\<lambda>st (x, y). f x st y) st (List.product xs ys)"
proof (induction xs arbitrary: st)
  case Nil
  show ?case by simp
next
  case (Cons x xs)
  have "foldl (\<lambda>st (x, y). f x st y) st (map (Pair x) ys) = foldl (f x) st ys"
    by (induction ys arbitrary: st) simp_all
  then show ?case by (simp add: Cons.IH)
qed

lemma foldl_scan_invariant:
  assumes "P [] s0"
    and "\<And>done x s. x \<in> set xs \<Longrightarrow> P done s \<Longrightarrow> P (done @ [x]) (f s x)"
  shows "P xs (foldl f s0 xs)"
proof -
  have "set ys \<subseteq> set xs \<Longrightarrow> P ys (foldl f s0 ys)" for ys
  proof (induction ys rule: rev_induct)
    case Nil
    show ?case using assms(1) by simp
  next
    case (snoc y ys)
    then show ?case using assms(2) [of y ys "foldl f s0 ys"] by simp
  qed
  then show ?thesis by simp
qed

section \<open>The invariant of cluster detection\<close>

definition truthy_id :: "Grid \<Rightarrow> GridPosition \<Rightarrow> bool" where
  "truthy_id g p = (case id_at g p of None \<Rightarrow> False | Some n \<Rightarrow> n \<noteq> [])"

definition cluster_ok :: "GameConfig \<Rightarrow> Grid \<Rightarrow> Cluster \<Rightarrow> bool" where
  "cluster_ok cfg g0 c =
     (positions c \<noteq> [] \<and> cl_size c = length (positions c) \<and> payout c = 0 \<and> symbolId c \<noteq> []
      \<and> linked (positions c)
      \<and> list_all (\<lambda>p. pos_key p \<in> grid_cells cfg \<and> id_at g0 p = Some (symbolId c)) (positions c))"

definition fc_inv ::
  "GameConfig \<Rightarrow> Grid \<Rightarrow> int \<Rightarrow> (nat \<times> nat) list
     \<Rightarrow> Cluster list \<times> Grid \<times> (int \<times> int) set \<times> int \<Rightarrow> bool" where
  "fc_inv cfg g0 n0 scanned st =
     (case st of (cs, g, visited, nextId) \<Rightarrow>
        unmark g = unmark g0
        \<and> visited = pos_key ` set (concat (map positions cs))
        \<and> distinct (map pos_key (concat (map positions cs)))
        \<and> list_all (cluster_ok cfg g0) cs
        \<and> map cl_id cs = map (\<lambda>i. n0 + int i) [0 ..< length cs]
        \<and> nextId = n0 + int (length cs)
        \<and> list_all (\<lambda>(r, c). truthy_id g0 \<lparr>col = int c, row = int r\<rparr> \<longrightarrow> (int c, int r) \<in> visited)
             scanned)"

lemma id_at_start:
  "id_at g \<lparr>col = int c, row = int r\<rparr> = (case cell g r c of None \<Rightarrow> None | Some s \<Rightarrow> sym_id s)"
  by (simp add: id_at_def)

lemma floodFill_falsy:
  assumes "\<not> truthy_id g \<lparr>col = int c, row = int r\<rparr>"
  shows "floodFill cfg g nextId c r visited =
           (\<lparr>cl_id = -1, symbolId = [], positions = [], cl_size = 0, payout = 0\<rparr>, g, visited, nextId)"
  using assms
  by (auto simp: floodFill_def truthy_id_def id_at_start split: option.splits)

lemma floodFill_truthy:
  assumes "id_at g \<lparr>col = int c, row = int r\<rparr> = Some symId" and "symId \<noteq> []"
    and "floodFill_loop cfg symId nextId [\<lparr>col = int c, row = int r\<rparr>] g visited [] = (g', visited', ps)"
  shows "floodFill cfg g nextId c r visited =
           (\<lparr>cl_id = nextId, symbolId = symId, positions = ps, cl_size = length ps, payout = 0\<rparr>,
            g', visited', nextId + 1)"
  using assms
  by (auto simp: floodFill_def id_at_start split: option.splits)

lemma fc_inv_step:
  assumes inv: "fc_inv cfg g0 n0 scanned st" and r: "r < rows cfg" and c: "c < columns cfg"
  shows "fc_inv cfg g0 n0 (scanned @ [(r, c)]) (findClusters_cell cfg r st c)"
proof -
  obtain cs g visited nextId where st: "st = (cs, g, visited, nextId)"
    by (cases st) auto
  let ?p = "\<lparr>col = int c, row = int r\<rparr>"
  from inv st have um: "unmark g = unmark g0"
    and vis: "visited = pos_key ` set (concat (map positions cs))"
    and dist: "distinct (map pos_key (concat (map positions cs)))"
    and oks: "list_all (cluster_ok cfg g0) cs"
    and ids: "map cl_id cs = map (\<lambda>i. n0 + int i) [0 ..< length cs]"
    and nid: "nextId = n0 + int (length cs)"
    and sc: "list_all (\<lambda>(r, c). truthy_id g0 \<lparr>col = int c, row = int r\<rparr> \<longrightarrow> (int c, int r) \<in> visited)
               scanned"
    by (auto simp: fc_inv_def)
  have idg: "\<And>q. id_at g q = id_at g0 q"
    using um by (rule unmark_eq_id_at)
  have tr: "truthy_id g ?p = truthy_id g0 ?p"
    by (simp add: truthy_id_def idg)
  have key: "pos_key ?p = (int c, int r)" by (simp add: pos_key_def)
  have incell: "pos_key ?p \<in> grid_cells cfg"
    using r c by (simp add: pos_key_def grid_cells_def)
  show ?thesis
  proof (cases "(int c, int r) \<notin> visited \<and> cell g r c \<noteq> None")
    case False
    then have same: "findClusters_cell cfg r st c = st"
      by (auto simp: findClusters_cell_def st)
    have extra: "truthy_id g0 ?p \<longrightarrow> (int c, int r) \<in> visited"
      using False tr by (auto simp: truthy_id_def id_at_start)
    have "fc_inv cfg g0 n0 (scanned @ [(r, c)]) (cs, g, visited, nextId)"
      unfolding fc_inv_def using um vis dist oks ids nid sc extra by simp
    then show ?thesis using same st by simp
  next
    case True
    show ?thesis
    proof (cases "truthy_id g ?p")
      case False
      have same: "findClusters_cell cfg r st c = st"
        using True by (simp add: findClusters_cell_def st floodFill_falsy [OF False])
      have extra: "truthy_id g0 ?p \<longrightarrow> (int c, int r) \<in> visited"
        using False tr by simp
      have "fc_inv cfg g0 n0 (scanned @ [(r, c)]) (cs, g, visited, nextId)"
        unfolding fc_inv_def using um vis dist oks ids nid sc extra by simp
      then show ?thesis using same st by simp
    next
      case truthy: True
      then obtain symId where sid: "id_at g ?p = Some symId" and ne: "symId \<noteq> []"
        by (auto simp: truthy_id_def split: option.splits)
      obtain g' visited' ps where loop:
        "floodFill_loop cfg symId nextId [?p] g visited [] = (g', visited', ps)"
        by (metis prod_cases3)
      from floodFill_loop_inv [OF loop] obtain new where um': "unmark g' = unmark g"
        and new: "ps = [] @ new" "visited' = visited \<union> pos_key ` set new"
          "ff_new cfg symId g visited new"
        by blast
      have psnew: "new = ps" using new(1) by simp
      have nv: "pos_key ?p \<notin> visited" using True key by simp
      from floodFill_loop_start [OF loop nv incell sid] have psne: "ps \<noteq> []" and hd: "hd ps = ?p"
        by auto
      have lk: "linked ps"
        using floodFill_loop_linked [OF loop] by (simp add: stack_ok_def)
      let ?cl = "\<lparr>cl_id = nextId, symbolId = symId, positions = ps, cl_size = length ps, payout = 0\<rparr>"
      have ff: "floodFill cfg g nextId c r visited = (?cl, g', visited', nextId + 1)"
        by (rule floodFill_truthy [OF sid ne loop])
      have res: "findClusters_cell cfg r st c = (cs @ [?cl], g', visited', nextId + 1)"
        using True psne by (cases ps) (simp_all add: findClusters_cell_def st ff)
      have ffn: "distinct (map pos_key ps)" "pos_key ` set ps \<inter> visited = {}"
        "list_all (\<lambda>p. pos_key p \<in> grid_cells cfg \<and> id_at g p = Some symId) ps"
        using new(3) psnew by (auto simp: ff_new_def)
      have ok: "cluster_ok cfg g0 ?cl"
        using psne lk ne ffn(3) by (simp add: cluster_ok_def idg)
      have i1: "unmark g' = unmark g0" using um' um by simp
      have i2: "visited' = pos_key ` set (concat (map positions (cs @ [?cl])))"
        using new(2) psnew vis by auto
      have i3: "distinct (map pos_key (concat (map positions (cs @ [?cl]))))"
        using dist ffn(1,2) vis by auto
      have i4: "list_all (cluster_ok cfg g0) (cs @ [?cl])"
        using oks ok by simp
      have i5: "map cl_id (cs @ [?cl]) = map (\<lambda>i. n0 + int i) [0 ..< length (cs @ [?cl])]"
        using ids nid by simp
      have i6: "nextId + 1 = n0 + int (length (cs @ [?cl]))"
        using nid by simp
      have "?p \<in> set ps" using psne hd by (metis list.set_sel(1))
      then have here: "(int c, int r) \<in> visited'"
        using new(2) psnew key by (metis UnI2 imageI)
      have sub: "visited \<subseteq> visited'" using new(2) by auto
      have i7: "list_all (\<lambda>(r, c). truthy_id g0 \<lparr>col = int c, row = int r\<rparr> \<longrightarrow> (int c, int r) \<in> visited')
                  (scanned @ [(r, c)])"
        using sc sub here by (auto simp: list_all_iff)
      show ?thesis
        unfolding res fc_inv_def using i1 i2 i3 i4 i5 i6 i7 by (simp add: Un_ac)
    qed
  qed
qed

lemma fc_inv_init: "fc_inv cfg g n0 [] ([], g, {}, n0)"
  by (simp add: fc_inv_def)

lemma findClusters_inv:
  assumes "findClusters cfg g n0 = (cs, g', nextId')"
  shows "\<exists>visited. fc_inv cfg g n0 (List.product [0 ..< rows cfg] [0 ..< columns cfg])
                      (cs, g', visited, nextId')"
proof -
  let ?f = "\<lambda>st (row', col'). findClusters_cell cfg row' st col'"
  let ?cells = "List.product [0 ..< rows cfg] [0 ..< columns cfg]"
  have flat: "foldl (\<lambda>st row'. foldl (findClusters_cell cfg row') st [0 ..< columns cfg])
                ([], g, {}, n0) [0 ..< rows cfg] = foldl ?f ([], g, {}, n0) ?cells"
    by (rule foldl_nested)
  have "fc_inv cfg g n0 ?cells (foldl ?f ([], g, {}, n0) ?cells)"
  proof (rule foldl_scan_invariant)
    show "fc_inv cfg g n0 [] ([], g, {}, n0)" by (rule fc_inv_init)
  next
    fix scanned x st
    assume x: "x \<in> set ?cells" and inv: "fc_inv cfg g n0 scanned st"
    obtain r c where rc: "x = (r, c)" by (cases x) auto
    with x have "r < rows cfg" "c < columns cfg" by auto
    from fc_inv_step [OF inv this] show "fc_inv cfg g n0 (scanned @ [x]) (?f st x)"
      by (simp add: rc)
  qed
  moreover obtain cs2 g2 v2 n2 where fin: "foldl ?f ([], g, {}, n0) ?cells = (cs2, g2, v2, n2)"
    by (metis prod_cases4)
  ultimately have "fc_inv cfg g n0 ?cells (cs2, g2, v2, n2)" by simp
  moreover have "cs2 = cs" "g2 = g'" "n2 = nextId'"
    using assms fin by (simp_all add: findClusters_def flat)
  ultimately show ?thesis by blast
qed

text \<open>Connectivity: a list in which every element after the first is adjacent to an
  earlier one is connected through its own elements.\<close>

definition adj_on :: "GridPosition set \<Rightarrow> (GridPosition \<times> GridPosition) set" where
  "adj_on S = {(a, b). a \<in> S \<and> b \<in> S \<and> adjacent a b}"

lemma adjacent_sym: "adjacent p q \<Longrightarrow> adjacent q p"
  by (auto simp: adjacent_def)

lemma adj_on_mono: "S \<subseteq> T \<Longrightarrow> adj_on S \<subseteq> adj_on T"
  by (auto simp: adj_on_def)

lemma linked_connected:
  "linked ps \<Longrightarrow> p \<in> set ps \<Longrightarrow> q \<in> set ps \<Longrightarrow> (p, q) \<in> (adj_on (set ps))\<^sup>*"
proof (induction ps arbitrary: p q rule: rev_induct)
  case Nil
  then show ?case by simp
next
  case (snoc x ps)
  let ?S = "set ps" and ?T = "set (ps @ [x])"
  have lk: "linked ps" and link: "ps = [] \<or> list_ex (\<lambda>y. adjacent y x) ps"
    using snoc.prems(1) by (auto simp: linked_snoc)
  have mono: "(adj_on ?S)\<^sup>* \<subseteq> (adj_on ?T)\<^sup>*"
    by (rule rtrancl_mono, rule adj_on_mono) auto
  have old: "\<And>a b. a \<in> ?S \<Longrightarrow> b \<in> ?S \<Longrightarrow> (a, b) \<in> (adj_on ?T)\<^sup>*"
    using snoc.IH [OF lk] mono by blast
  show ?case
  proof (cases "ps = []")
    case True
    with snoc.prems show ?thesis by simp
  next
    case False
    with link obtain y where y: "y \<in> ?S" "adjacent y x"
      by (auto simp: list_ex_iff)
    have yx: "(y, x) \<in> adj_on ?T" and xy: "(x, y) \<in> adj_on ?T"
      using y adjacent_sym by (auto simp: adj_on_def)
    have to_x: "\<And>a. a \<in> ?S \<Longrightarrow> (a, x) \<in> (adj_on ?T)\<^sup>*"
      using old [OF _ y(1)] yx by (meson rtrancl.rtrancl_into_rtrancl)
    have from_x: "\<And>b. b \<in> ?S \<Longrightarrow> (x, b) \<in> (adj_on ?T)\<^sup>*"
      using old [OF y(1)] xy by (meson converse_rtrancl_into_rtrancl)
    from snoc.prems(2,3) have "p = x \<or> p \<in> ?S" "q = x \<or> q \<in> ?S" by auto
    then show ?thesis using old to_x from_x by auto
  qed
qed

section \<open>Payouts\<close>

text \<open>The paytable entry a cluster is paid from, in the words of the specification: the
  symbol of the cluster is in the paytable, the size of the cluster is at least the symbol's
  \<open>minCluster\<close>, and the payout table has an entry for exactly that size.\<close>

definition meets_minimum :: "GameConfig \<Rightarrow> Cluster \<Rightarrow> bool" where
  "meets_minimum cfg c =
     (case find (\<lambda>s. ps_id s = symbolId c) (symbols cfg) of
        None \<Rightarrow> False
      | Some s \<Rightarrow> minCluster s \<le> of_nat (cl_size c))"

definition table_entry :: "GameConfig \<Rightarrow> Cluster \<Rightarrow> number option" where
  "table_entry cfg c =
     (case find (\<lambda>s. ps_id s = symbolId c) (symbols cfg) of
        None \<Rightarrow> None
      | Some s \<Rightarrow> if minCluster s \<le> of_nat (cl_size c)
                  then payoutTable s (nat_toString (cl_size c)) else None)"

definition pay_of :: "GameConfig \<Rightarrow> number \<Rightarrow> Cluster \<Rightarrow> number" where
  "pay_of cfg bet' c = (case table_entry cfg c of None \<Rightarrow> 0 | Some v \<Rightarrow> v * bet')"

lemma pay_of_not_minimum: "\<not> meets_minimum cfg c \<Longrightarrow> pay_of cfg bet' c = 0"
  by (cases "find (\<lambda>s. ps_id s = symbolId c) (symbols cfg)")
     (simp_all add: meets_minimum_def pay_of_def table_entry_def)

lemma payout_loop_eq:
  "payout_loop cfg bet' cs tp =
     (map (\<lambda>c. if meets_minimum cfg c then c\<lparr>payout := pay_of cfg bet' c\<rparr> else c) cs,
      tp + sum_list (map (pay_of cfg bet') cs))"
proof (induction cs arbitrary: tp)
  case Nil
  show ?case by simp
next
  case (Cons c cs)
  show ?case
  proof (cases "find (\<lambda>s. ps_id s = symbolId c) (symbols cfg)")
    case None
    then have "\<not> meets_minimum cfg c" "pay_of cfg bet' c = 0"
      by (simp_all add: meets_minimum_def pay_of_def table_entry_def)
    with None show ?thesis by (simp add: Cons.IH)
  next
    case (Some s)
    show ?thesis
    proof (cases "minCluster s \<le> of_nat (cl_size c)")
      case True
      then have m: "meets_minimum cfg c"
        and p: "pay_of cfg bet' c = lookup_or_zero (payoutTable s) (nat_toString (cl_size c)) * bet'"
        using Some
        by (simp_all add: meets_minimum_def pay_of_def table_entry_def lookup_or_zero_def
            split: option.splits)
      show ?thesis using Some True m p by (simp add: Cons.IH Let_def)
    next
      case False
      then have "\<not> meets_minimum cfg c" "pay_of cfg bet' c = 0"
        using Some by (simp_all add: meets_minimum_def pay_of_def table_entry_def)
      with Some False show ?thesis by (simp add: Cons.IH)
    qed
  qed
qed

lemma payout_loop_zero:
  assumes "list_all (\<lambda>c. payout c = 0) cs"
  shows "payout_loop cfg bet' cs 0 =
           (map (\<lambda>c. c\<lparr>payout := pay_of cfg bet' c\<rparr>) cs, sum_list (map (pay_of cfg bet') cs))"
proof -
  have "map (\<lambda>c. if meets_minimum cfg c then c\<lparr>payout := pay_of cfg bet' c\<rparr> else c) cs
          = map (\<lambda>c. c\<lparr>payout := pay_of cfg bet' c\<rparr>) cs"
    using assms by (auto simp: list_all_iff pay_of_not_minimum)
  then show ?thesis by (simp add: payout_loop_eq)
qed

lemma table_entry_payout [simp]: "table_entry cfg (c\<lparr>payout := x\<rparr>) = table_entry cfg c"
  by (simp add: table_entry_def split: option.splits)

lemma meets_minimum_payout [simp]: "meets_minimum cfg (c\<lparr>payout := x\<rparr>) = meets_minimum cfg c"
  by (simp add: meets_minimum_def split: option.splits)

lemma pay_of_payout [simp]: "pay_of cfg bet' (c\<lparr>payout := x\<rparr>) = pay_of cfg bet' c"
  by (simp add: pay_of_def)

lemma foldl_mult_prod: "foldl (\<lambda>acc m. acc * ms_value m) a ms = a * prod_list (map ms_value ms)"
  by (induction ms arbitrary: a) (simp_all add: mult.assoc)

text \<open>What \<open>evaluateWin\<close> returns, in terms of the clusters found and the multiplier symbols.\<close>

definition multiplier_of :: "bool \<Rightarrow> MultiplierSymbol list \<Rightarrow> number" where
  "multiplier_of fs ms =
     (if fs \<and> length ms > 0 then min (foldl (\<lambda>acc m. acc * ms_value m) 1 ms) 1000 else 1)"

lemma evaluateWin_Inr:
  assumes "evaluateWin cfg g r bet' fs = Inr (res, g', r')"
  obtains cs nextId ms where
    "findClusters cfg g 0 = (cs, g', nextId)"
    "(if fs then findMultiplierSymbols cfg g' r else Inr ([], r)) = Inr (ms, r')"
    "res = \<lparr>clusters = map (\<lambda>c. c\<lparr>payout := pay_of cfg bet' c\<rparr>) cs,
            totalPayout = sum_list (map (pay_of cfg bet') cs) * multiplier_of fs ms,
            wr_multiplier = multiplier_of fs ms,
            scatterCount = countScatters cfg g',
            wr_freeSpinsAwarded = freeSpins_for cfg (countScatters cfg g'),
            multiplierSymbols = ms\<rparr>"
proof -
  obtain cs g1 nextId where fc: "findClusters cfg g 0 = (cs, g1, nextId)"
    by (metis prod_cases3)
  from findClusters_inv [OF fc] have z: "list_all (\<lambda>c. payout c = 0) cs"
    by (auto simp: fc_inv_def list_all_iff cluster_ok_def)
  note pl = payout_loop_zero [OF z, of cfg bet']
  show ?thesis
  proof (cases "if fs then findMultiplierSymbols cfg g1 r else Inr ([], r)")
    case (Inl e)
    with assms fc show ?thesis by (simp add: evaluateWin_def Let_def)
  next
    case (Inr x)
    obtain ms r1 where x: "x = (ms, r1)" by (cases x) auto
    have "evaluateWin cfg g r bet' fs =
            Inr (\<lparr>clusters = map (\<lambda>c. c\<lparr>payout := pay_of cfg bet' c\<rparr>) cs,
                  totalPayout = sum_list (map (pay_of cfg bet') cs) * multiplier_of fs ms,
                  wr_multiplier = multiplier_of fs ms,
                  scatterCount = countScatters cfg g1,
                  wr_freeSpinsAwarded = freeSpins_for cfg (countScatters cfg g1),
                  multiplierSymbols = ms\<rparr>, g1, r1)"
      using fc Inr x pl by (simp add: evaluateWin_def Let_def multiplier_of_def)
    with assms have e: "g1 = g'" "r1 = r'" and res: "res = \<lparr>clusters = map (\<lambda>c. c\<lparr>payout := pay_of cfg bet' c\<rparr>) cs,
                  totalPayout = sum_list (map (pay_of cfg bet') cs) * multiplier_of fs ms,
                  wr_multiplier = multiplier_of fs ms,
                  scatterCount = countScatters cfg g1,
                  wr_freeSpinsAwarded = freeSpins_for cfg (countScatters cfg g1),
                  multiplierSymbols = ms\<rparr>"
      by auto
    show ?thesis
    proof (rule that [of cs nextId ms])
      show "findClusters cfg g 0 = (cs, g', nextId)" using fc e by auto
      show "(if fs then findMultiplierSymbols cfg g' r else Inr ([], r)) = Inr (ms, r')"
        using Inr x e by (cases fs) auto
      show "res = \<lparr>clusters = map (\<lambda>c. c\<lparr>payout := pay_of cfg bet' c\<rparr>) cs,
            totalPayout = sum_list (map (pay_of cfg bet') cs) * multiplier_of fs ms,
            wr_multiplier = multiplier_of fs ms,
            scatterCount = countScatters cfg g',
            wr_freeSpinsAwarded = freeSpins_for cfg (countScatters cfg g'),
            multiplierSymbols = ms\<rparr>"
        using res e by auto
    qed
  qed
qed

text \<open>
  C2. For every grid of the configured dimensions, every bet and every configuration, in
  the result of \<open>evaluateWin\<close>: every cluster found is in the list \<open>clusters\<close> (the list
  is the list of clusters found, payouts apart); the payout of a cluster is
  \<open>payoutTable[size] * bet\<close> when the symbol of the cluster is in the paytable, the size is
  at least the symbol's \<open>minCluster\<close> and the table has an entry for exactly that size, and
  0 in every other case; and \<open>totalPayout\<close> is the multiplier times the sum of the payouts
  of the clusters paid from a table entry, which is also the sum over the clusters that
  meet their minimum.
\<close>

theorem evaluateWin_payouts:
  assumes "wf_grid cfg g" and "evaluateWin cfg g r bet' fs = Inr (res, g', r')"
  shows "map (\<lambda>c. c\<lparr>payout := 0\<rparr>) (clusters res) = fst (findClusters cfg g 0)
       \<and> list_all (\<lambda>c. payout c = (case table_entry cfg c of None \<Rightarrow> 0 | Some v \<Rightarrow> v * bet'))
           (clusters res)
       \<and> totalPayout res
           = wr_multiplier res
             * sum_list (map payout (filter (\<lambda>c. table_entry cfg c \<noteq> None) (clusters res)))
       \<and> totalPayout res
           = wr_multiplier res * sum_list (map payout (filter (meets_minimum cfg) (clusters res)))"
proof -
  from assms(2) obtain cs nextId ms where
    fc: "findClusters cfg g 0 = (cs, g', nextId)"
    and res: "res = \<lparr>clusters = map (\<lambda>c. c\<lparr>payout := pay_of cfg bet' c\<rparr>) cs,
            totalPayout = sum_list (map (pay_of cfg bet') cs) * multiplier_of fs ms,
            wr_multiplier = multiplier_of fs ms,
            scatterCount = countScatters cfg g',
            wr_freeSpinsAwarded = freeSpins_for cfg (countScatters cfg g'),
            multiplierSymbols = ms\<rparr>"
    by (rule evaluateWin_Inr)
  from findClusters_inv [OF fc] have z: "list_all (\<lambda>c. payout c = 0) cs"
    by (auto simp: fc_inv_def list_all_iff cluster_ok_def)
  have a: "map (\<lambda>c. c\<lparr>payout := 0\<rparr>) (clusters res) = fst (findClusters cfg g 0)"
    using z by (simp add: res fc comp_def list_all_iff map_idI)
  have b: "list_all (\<lambda>c. payout c = (case table_entry cfg c of None \<Rightarrow> 0 | Some v \<Rightarrow> v * bet'))
             (clusters res)"
    by (simp add: res list_all_iff pay_of_def)
  have pays: "map payout (clusters res) = map (pay_of cfg bet') cs"
    by (simp add: res comp_def)
  have s1: "sum_list (map payout (filter (\<lambda>c. table_entry cfg c \<noteq> None) (clusters res)))
              = sum_list (map payout (clusters res))"
    by (rule sum_list_map_filter) (simp add: res pay_of_def, auto simp: pay_of_def)
  have s2: "sum_list (map payout (filter (meets_minimum cfg) (clusters res)))
              = sum_list (map payout (clusters res))"
    by (rule sum_list_map_filter) (simp add: res, auto simp: pay_of_not_minimum)
  have t: "totalPayout res = wr_multiplier res * sum_list (map payout (clusters res))"
    unfolding pays by (simp add: res)
  show ?thesis using a b t s1 s2 by simp
qed

lemma example_wf: "wf_grid example_config example_grid"
  by (simp add: wf_grid_def example_config_def example_grid_def)

definition example_result :: WinResult where
  "example_result =
     \<lparr>clusters =
        [\<lparr>cl_id = 0, symbolId = ''red'',
          positions = [\<lparr>col = 0, row = 0\<rparr>, \<lparr>col = 0, row = 1\<rparr>, \<lparr>col = 1, row = 1\<rparr>],
          cl_size = 3, payout = 14\<rparr>,
         \<lparr>cl_id = 1, symbolId = ''blue'', positions = [\<lparr>col = 1, row = 0\<rparr>],
          cl_size = 1, payout = 0\<rparr>],
      totalPayout = 14, wr_multiplier = 1, scatterCount = 0, wr_freeSpinsAwarded = 0,
      multiplierSymbols = []\<rparr>"

definition example_marked :: Grid where
  "example_marked =
     [[map_option (clusterId_update (\<lambda>_. Some 0)) (example_symbol ''red'' 0 0),
       map_option (clusterId_update (\<lambda>_. Some 1)) (example_symbol ''blue'' 1 0)],
      [map_option (clusterId_update (\<lambda>_. Some 0)) (example_symbol ''red'' 0 1),
       map_option (clusterId_update (\<lambda>_. Some 0)) (example_symbol ''red'' 1 1)]]"

lemma example_evaluateWin:
  "evaluateWin example_config example_grid example_rng 2 False
     = Inr (example_result, example_marked, example_rng)"
  by code_simp

theorem evaluateWin_payouts_witness:
  "wf_grid example_config example_grid
   \<and> evaluateWin example_config example_grid example_rng 2 False
       = Inr (example_result, example_marked, example_rng)
   \<and> list_all (\<lambda>c. payout c = (case table_entry example_config c of None \<Rightarrow> 0 | Some v \<Rightarrow> v * 2))
         (clusters example_result)
   \<and> totalPayout example_result
       = wr_multiplier example_result
         * sum_list (map payout (filter (\<lambda>c. table_entry example_config c \<noteq> None)
                                   (clusters example_result)))"
  using evaluateWin_payouts [OF example_wf example_evaluateWin] example_wf example_evaluateWin
  by blast

section \<open>The free-spin multiplier\<close>

text \<open>The value table of the multiplier symbol, when the configuration has one with both
  \<open>values\<close> and \<open>weights\<close>, and the cells of the grid that hold a multiplier symbol, in
  the order of the scan.\<close>

definition multiplier_table :: "GameConfig \<Rightarrow> (number list \<times> number list) option" where
  "multiplier_table cfg =
     (case find (\<lambda>s. sp_id s = ''multiplier'') (specialSymbols cfg) of
        None \<Rightarrow> None
      | Some m \<Rightarrow> (case (sp_values m, sp_weights m) of
                    (Some vals, Some weights) \<Rightarrow> Some (vals, weights)
                  | _ \<Rightarrow> None))"

definition multiplier_cells :: "GameConfig \<Rightarrow> Grid \<Rightarrow> GridPosition list" where
  "multiplier_cells cfg g =
     map (\<lambda>(r, c). \<lparr>col = int c, row = int r\<rparr>)
         (filter (\<lambda>(r, c). has_id (cell g r c) ''multiplier'')
                 (List.product [0 ..< rows cfg] [0 ..< columns cfg]))"

lemma weightedChoice_loop_mem:
  "weightedChoice_loop items weights random = Some x \<Longrightarrow> x \<in> set items"
  by (induction items weights random rule: weightedChoice_loop.induct)
     (auto simp: Let_def split: if_splits)

lemma weightedChoice_mem:
  assumes "weightedChoice items weights r = (Some x, r')"
  shows "x \<in> set items"
proof (cases "weightedChoice_loop items weights
                (Some (fst (rng_next r) * foldl (\<lambda>sum weight. sum + weight) 0 weights))")
  case None
  with assms have "items \<noteq> []" "x = last items"
    by (auto simp: weightedChoice_def Let_def split: if_splits)
  then show ?thesis by simp
next
  case (Some y)
  with assms have "x = y" by (simp add: weightedChoice_def Let_def)
  with Some show ?thesis using weightedChoice_loop_mem by metis
qed

lemma weightedChoice_defined:
  "items \<noteq> [] \<Longrightarrow> \<exists>x. fst (weightedChoice items weights r) = Some x"
  by (simp add: weightedChoice_def Let_def split: option.splits)

lemma findMultiplierSymbols_loop_Inr:
  "findMultiplierSymbols_loop vals weights g cells ms r = Inr (ms', r') \<Longrightarrow>
     \<exists>new. ms' = ms @ new
        \<and> map ms_position new
            = map (\<lambda>(r, c). \<lparr>col = int c, row = int r\<rparr>)
                  (filter (\<lambda>(r, c). has_id (cell g r c) ''multiplier'') cells)
        \<and> list_all (\<lambda>m. ms_value m \<in> set vals) new"
proof (induction cells arbitrary: ms r)
  case Nil
  then show ?case by simp
next
  case (Cons x cells)
  obtain row' col' where x: "x = (row', col')" by (cases x) auto
  show ?case
  proof (cases "has_id (cell g row' col') ''multiplier''")
    case False
    with Cons.prems x have "findMultiplierSymbols_loop vals weights g cells ms r = Inr (ms', r')"
      by simp
    from Cons.IH [OF this] show ?thesis using False x by simp
  next
    case True
    obtain v r1 where wc: "weightedChoice vals weights r = (v, r1)" by (cases "weightedChoice vals weights r") auto
    show ?thesis
    proof (cases v)
      case None
      with Cons.prems x True wc show ?thesis by simp
    next
      case (Some val)
      let ?m = "\<lparr>ms_position = \<lparr>col = int col', row = int row'\<rparr>, ms_value = val\<rparr>"
      from Cons.prems x True wc Some
      have "findMultiplierSymbols_loop vals weights g cells (ms @ [?m]) r1 = Inr (ms', r')"
        by simp
      from Cons.IH [OF this] obtain new where new: "ms' = (ms @ [?m]) @ new"
        "map ms_position new
            = map (\<lambda>(r, c). \<lparr>col = int c, row = int r\<rparr>)
                  (filter (\<lambda>(r, c). has_id (cell g r c) ''multiplier'') cells)"
        "list_all (\<lambda>m. ms_value m \<in> set vals) new"
        by blast
      have "val \<in> set vals" using weightedChoice_mem wc Some by metis
      then have "ms' = ms @ (?m # new) \<and>
          map ms_position (?m # new)
            = map (\<lambda>(r, c). \<lparr>col = int c, row = int r\<rparr>)
                  (filter (\<lambda>(r, c). has_id (cell g r c) ''multiplier'') (x # cells)) \<and>
          list_all (\<lambda>m. ms_value m \<in> set vals) (?m # new)"
        using new True x by simp
      then show ?thesis by blast
    qed
  qed
qed

lemma findMultiplierSymbols_loop_total:
  "vals \<noteq> [] \<Longrightarrow> \<exists>y. findMultiplierSymbols_loop vals weights g cells ms r = Inr y"
proof (induction cells arbitrary: ms r)
  case Nil
  show ?case by simp
next
  case (Cons x cells)
  obtain row' col' where x: "x = (row', col')" by (cases x) auto
  obtain v where v: "fst (weightedChoice vals weights r) = Some v"
    using weightedChoice_defined [OF Cons.prems] by blast
  then obtain r1 where "weightedChoice vals weights r = (Some v, r1)"
    by (cases "weightedChoice vals weights r") auto
  then show ?case using Cons.IH [OF Cons.prems] x by simp
qed

lemma findMultiplierSymbols_Inr:
  assumes "findMultiplierSymbols cfg g r = Inr (ms, r')"
  shows "map ms_position ms = (case multiplier_table cfg of None \<Rightarrow> [] | Some t \<Rightarrow> multiplier_cells cfg g)
       \<and> (case multiplier_table cfg of
            None \<Rightarrow> True
          | Some (vals, weights) \<Rightarrow> list_all (\<lambda>m. ms_value m \<in> set vals) ms)"
proof (cases "multiplier_table cfg")
  case None
  then have "findMultiplierSymbols cfg g r = Inr ([], r)"
    by (auto simp: findMultiplierSymbols_def multiplier_table_def split: option.splits)
  with assms None show ?thesis by simp
next
  case (Some t)
  obtain vals weights where t: "t = (vals, weights)" by (cases t) auto
  from Some t have "findMultiplierSymbols cfg g r =
      findMultiplierSymbols_loop vals weights g
        (List.product [0 ..< rows cfg] [0 ..< columns cfg]) [] r"
    by (auto simp: findMultiplierSymbols_def multiplier_table_def split: option.splits)
  with assms have "findMultiplierSymbols_loop vals weights g
        (List.product [0 ..< rows cfg] [0 ..< columns cfg]) [] r = Inr (ms, r')" by simp
  from findMultiplierSymbols_loop_Inr [OF this] show ?thesis
    using Some t by (auto simp: multiplier_cells_def)
qed

lemma findMultiplierSymbols_total:
  assumes "case multiplier_table cfg of None \<Rightarrow> True | Some (vals, weights) \<Rightarrow> vals \<noteq> []"
  shows "\<exists>y. findMultiplierSymbols cfg g r = Inr y"
proof (cases "multiplier_table cfg")
  case None
  then have "findMultiplierSymbols cfg g r = Inr ([], r)"
    by (auto simp: findMultiplierSymbols_def multiplier_table_def split: option.splits)
  then show ?thesis by simp
next
  case (Some t)
  obtain vals weights where t: "t = (vals, weights)" by (cases t) auto
  from Some t have eq: "findMultiplierSymbols cfg g r =
      findMultiplierSymbols_loop vals weights g
        (List.product [0 ..< rows cfg] [0 ..< columns cfg]) [] r"
    by (auto simp: findMultiplierSymbols_def multiplier_table_def split: option.splits)
  have "vals \<noteq> []" using assms Some t by simp
  from findMultiplierSymbols_loop_total [OF this] show ?thesis unfolding eq by blast
qed

text \<open>\<open>evaluateWin\<close> returns a result: always outside free spins, and in free spins
  whenever the value table of the multiplier symbol is not empty.\<close>

lemma evaluateWin_returns:
  assumes "\<not> fs \<or> (case multiplier_table cfg of None \<Rightarrow> True | Some (vals, weights) \<Rightarrow> vals \<noteq> [])"
  shows "\<exists>res g' r'. evaluateWin cfg g r bet' fs = Inr (res, g', r')"
proof -
  obtain cs g1 nextId where fc: "findClusters cfg g 0 = (cs, g1, nextId)"
    by (metis prod_cases3)
  have "\<exists>y. (if fs then findMultiplierSymbols cfg g1 r else Inr ([], r)) = Inr y"
    using assms findMultiplierSymbols_total [of cfg g1 r] by (cases fs) auto
  then obtain ms r1 where "(if fs then findMultiplierSymbols cfg g1 r else Inr ([], r)) = Inr (ms, r1)"
    by (metis prod.collapse)
  then show ?thesis using fc
    by (cases "payout_loop cfg bet' cs 0") (simp add: evaluateWin_def Let_def)
qed

lemma multiplier_cells_unmark:
  "unmark g' = unmark g \<Longrightarrow> multiplier_cells cfg g' = multiplier_cells cfg g"
proof -
  assume "unmark g' = unmark g"
  then have "\<And>r c. has_id (cell g' r c) ''multiplier'' = has_id (cell g r c) ''multiplier''"
    by (rule unmark_eq_has_id)
  then show ?thesis by (simp add: multiplier_cells_def)
qed

text \<open>
  C3. For every grid of the configured dimensions and every bet, in the result of
  \<open>evaluateWin\<close>: outside free spins the multiplier is 1, the list of multiplier symbols is
  empty and the generator is untouched (no value is drawn: the search is not made); in free
  spins the multiplier is the product of the values drawn for the multiplier symbols,
  clamped at 1000, where the symbols that drew a value are exactly the cells of the grid
  holding a multiplier symbol (in scan order) when the configuration gives the multiplier
  symbol its \<open>values\<close> and \<open>weights\<close>, and each value comes from \<open>values\<close>; the multiplier
  never exceeds 1000; and \<open>totalPayout\<close> is the sum of the cluster payouts times that
  multiplier.
\<close>

theorem evaluateWin_multiplier:
  assumes "wf_grid cfg g" and "evaluateWin cfg g r bet' fs = Inr (res, g', r')"
  shows "(\<not> fs \<longrightarrow> wr_multiplier res = 1 \<and> multiplierSymbols res = [] \<and> r' = r)
       \<and> (fs \<longrightarrow> wr_multiplier res = min (prod_list (map ms_value (multiplierSymbols res))) 1000
              \<and> map ms_position (multiplierSymbols res)
                  = (case multiplier_table cfg of None \<Rightarrow> [] | Some t \<Rightarrow> multiplier_cells cfg g)
              \<and> (case multiplier_table cfg of
                    None \<Rightarrow> True
                  | Some (vals, weights) \<Rightarrow>
                      list_all (\<lambda>m. ms_value m \<in> set vals) (multiplierSymbols res)))
       \<and> wr_multiplier res \<le> 1000
       \<and> totalPayout res = sum_list (map payout (clusters res)) * wr_multiplier res"
proof -
  from assms(2) obtain cs nextId ms where
    fc: "findClusters cfg g 0 = (cs, g', nextId)"
    and fm: "(if fs then findMultiplierSymbols cfg g' r else Inr ([], r)) = Inr (ms, r')"
    and res: "res = \<lparr>clusters = map (\<lambda>c. c\<lparr>payout := pay_of cfg bet' c\<rparr>) cs,
            totalPayout = sum_list (map (pay_of cfg bet') cs) * multiplier_of fs ms,
            wr_multiplier = multiplier_of fs ms,
            scatterCount = countScatters cfg g',
            wr_freeSpinsAwarded = freeSpins_for cfg (countScatters cfg g'),
            multiplierSymbols = ms\<rparr>"
    by (rule evaluateWin_Inr)
  from findClusters_inv [OF fc] have um: "unmark g' = unmark g"
    by (auto simp: fc_inv_def)
  have a: "\<not> fs \<longrightarrow> wr_multiplier res = 1 \<and> multiplierSymbols res = [] \<and> r' = r"
    using fm by (auto simp: res multiplier_of_def)
  have m: "\<And>f. multiplier_of f ms = (if f then min (prod_list (map ms_value ms)) 1000 else 1)"
    by (cases ms) (simp_all add: multiplier_of_def foldl_mult_prod)
  have b: "fs \<longrightarrow> wr_multiplier res = min (prod_list (map ms_value (multiplierSymbols res))) 1000"
    by (simp add: res m)
  have c: "fs \<longrightarrow> map ms_position (multiplierSymbols res)
                  = (case multiplier_table cfg of None \<Rightarrow> [] | Some t \<Rightarrow> multiplier_cells cfg g)
              \<and> (case multiplier_table cfg of
                    None \<Rightarrow> True
                  | Some (vals, weights) \<Rightarrow>
                      list_all (\<lambda>m. ms_value m \<in> set vals) (multiplierSymbols res))"
  proof
    assume fs
    with fm have "findMultiplierSymbols cfg g' r = Inr (ms, r')" by simp
    from findMultiplierSymbols_Inr [OF this] show
      "map ms_position (multiplierSymbols res)
                  = (case multiplier_table cfg of None \<Rightarrow> [] | Some t \<Rightarrow> multiplier_cells cfg g)
              \<and> (case multiplier_table cfg of
                    None \<Rightarrow> True
                  | Some (vals, weights) \<Rightarrow>
                      list_all (\<lambda>m. ms_value m \<in> set vals) (multiplierSymbols res))"
      by (cases "multiplier_table cfg") (simp_all add: res multiplier_cells_unmark [OF um])
  qed
  have d: "wr_multiplier res \<le> 1000"
    by (simp add: res m)
  have e: "totalPayout res = sum_list (map payout (clusters res)) * wr_multiplier res"
    by (simp add: res comp_def)
  show ?thesis using a b c d e by blast
qed

text \<open>A free-spin example: two multiplier symbols that can only draw 40, and a pair of
  \<open>red\<close> symbols paid 7 for a cluster of two.\<close>

definition bonus_config :: GameConfig where
  "bonus_config =
     \<lparr>symbols = [\<lparr>ps_id = ''red'', ps_name = ''Red'', ps_rarity = 3, minCluster = 2,
                   payoutTable = [''2'' \<mapsto> 7]\<rparr>],
      specialSymbols =
        [\<lparr>sp_id = ''scatter'', sp_name = ''Scatter'', sp_rarity = 1, minCount = Some 4,
          freeSpinsTable = Some [''4'' \<mapsto> 10], sp_values = None, sp_weights = None\<rparr>,
         \<lparr>sp_id = ''multiplier'', sp_name = ''Multiplier'', sp_rarity = 1, minCount = None,
          freeSpinsTable = None, sp_values = Some [40], sp_weights = Some [1]\<rparr>],
      columns = 2, rows = 2, targetRTP = 96, maxCascades = 2\<rparr>"

definition bonus_grid :: Grid where
  "bonus_grid = [[example_symbol ''multiplier'' 0 0, example_symbol ''red'' 1 0],
                 [example_symbol ''multiplier'' 0 1, example_symbol ''red'' 1 1]]"

definition bonus_result :: WinResult where
  "bonus_result =
     \<lparr>clusters =
        [\<lparr>cl_id = 0, symbolId = ''multiplier'',
          positions = [\<lparr>col = 0, row = 0\<rparr>, \<lparr>col = 0, row = 1\<rparr>], cl_size = 2, payout = 0\<rparr>,
         \<lparr>cl_id = 1, symbolId = ''red'',
          positions = [\<lparr>col = 1, row = 0\<rparr>, \<lparr>col = 1, row = 1\<rparr>], cl_size = 2, payout = 14\<rparr>],
      totalPayout = 14000, wr_multiplier = 1000, scatterCount = 0, wr_freeSpinsAwarded = 0,
      multiplierSymbols =
        [\<lparr>ms_position = \<lparr>col = 0, row = 0\<rparr>, ms_value = 40\<rparr>,
         \<lparr>ms_position = \<lparr>col = 0, row = 1\<rparr>, ms_value = 40\<rparr>]\<rparr>"

definition bonus_marked :: Grid where
  "bonus_marked =
     [[map_option (clusterId_update (\<lambda>_. Some 0)) (example_symbol ''multiplier'' 0 0),
       map_option (clusterId_update (\<lambda>_. Some 1)) (example_symbol ''red'' 1 0)],
      [map_option (clusterId_update (\<lambda>_. Some 0)) (example_symbol ''multiplier'' 0 1),
       map_option (clusterId_update (\<lambda>_. Some 1)) (example_symbol ''red'' 1 1)]]"

lemma bonus_wf: "wf_grid bonus_config bonus_grid"
  by (simp add: wf_grid_def bonus_config_def bonus_grid_def)

lemma bonus_evaluateWin:
  "evaluateWin bonus_config bonus_grid example_rng 2 True
     = Inr (bonus_result, bonus_marked, snd (rng_next (snd (rng_next example_rng))))"
  by code_simp

theorem evaluateWin_multiplier_witness:
  "wf_grid bonus_config bonus_grid
   \<and> evaluateWin bonus_config bonus_grid example_rng 2 True
       = Inr (bonus_result, bonus_marked, snd (rng_next (snd (rng_next example_rng))))
   \<and> wr_multiplier bonus_result
       = min (prod_list (map ms_value (multiplierSymbols bonus_result))) 1000
   \<and> wr_multiplier bonus_result \<le> 1000
   \<and> totalPayout bonus_result
       = sum_list (map payout (clusters bonus_result)) * wr_multiplier bonus_result
   \<and> wf_grid example_config example_grid
   \<and> evaluateWin example_config example_grid example_rng 2 False
       = Inr (example_result, example_marked, example_rng)
   \<and> wr_multiplier example_result = 1 \<and> multiplierSymbols example_result = []"
  using evaluateWin_multiplier [OF bonus_wf bonus_evaluateWin]
    evaluateWin_multiplier [OF example_wf example_evaluateWin]
    bonus_wf bonus_evaluateWin example_wf example_evaluateWin
  by blast

section \<open>The clusters partition the cells they can hold\<close>

text \<open>The positions of the grid that hold a symbol, and those whose symbol has a
  non-empty id: the flood fill returns no cluster for a symbol with a missing or empty id.\<close>

definition occupied_positions :: "GameConfig \<Rightarrow> Grid \<Rightarrow> GridPosition set" where
  "occupied_positions cfg g =
     {p. pos_key p \<in> grid_cells cfg \<and> cell g (nat (row p)) (nat (col p)) \<noteq> None}"

definition filled_positions :: "GameConfig \<Rightarrow> Grid \<Rightarrow> GridPosition set" where
  "filled_positions cfg g = {p. pos_key p \<in> grid_cells cfg \<and> truthy_id g p}"

definition connected_cluster :: "Cluster \<Rightarrow> bool" where
  "connected_cluster c =
     (\<forall>p \<in> set (positions c). \<forall>q \<in> set (positions c). (p, q) \<in> (adj_on (set (positions c)))\<^sup>*)"

lemma inj_pos_key: "inj pos_key"
proof (rule injI)
  fix p q :: GridPosition
  assume "pos_key p = pos_key q"
  then show "p = q" by (cases p; cases q) (simp add: pos_key_def)
qed

lemma filled_subset_occupied: "filled_positions cfg g \<subseteq> occupied_positions cfg g"
  by (auto simp: filled_positions_def occupied_positions_def truthy_id_def id_at_def
      split: option.splits if_splits)

lemma filled_eq_occupied:
  "(\<forall>p \<in> occupied_positions cfg g. truthy_id g p)
     \<Longrightarrow> filled_positions cfg g = occupied_positions cfg g"
  using filled_subset_occupied [of cfg g]
  by (auto simp: filled_positions_def occupied_positions_def)

lemma findClusters_partition:
  assumes "findClusters cfg g n0 = (cs, g', nextId')"
  shows "distinct (concat (map positions cs))"
    and "set (concat (map positions cs)) = filled_positions cfg g"
    and "list_all (\<lambda>c. list_all (\<lambda>p. id_at g p = Some (symbolId c)) (positions c)) cs"
    and "list_all connected_cluster cs"
    and "distinct (map cl_id cs)"
    and "list_all (\<lambda>c. cl_size c = length (positions c) \<and> 1 \<le> cl_size c) cs"
    and "sum_list (map cl_size cs) = card (filled_positions cfg g)"
    and "unmark g' = unmark g"
proof -
  let ?cells = "List.product [0 ..< rows cfg] [0 ..< columns cfg]"
  from findClusters_inv [OF assms] obtain visited where
    inv: "fc_inv cfg g n0 ?cells (cs, g', visited, nextId')" by blast
  then have um: "unmark g' = unmark g"
    and vis: "visited = pos_key ` set (concat (map positions cs))"
    and dist: "distinct (map pos_key (concat (map positions cs)))"
    and oks: "list_all (cluster_ok cfg g) cs"
    and ids: "map cl_id cs = map (\<lambda>i. n0 + int i) [0 ..< length cs]"
    and sc: "list_all (\<lambda>(r, c). truthy_id g \<lparr>col = int c, row = int r\<rparr> \<longrightarrow> (int c, int r) \<in> visited)
               ?cells"
    by (auto simp: fc_inv_def)
  show "unmark g' = unmark g" by (rule um)
  show d: "distinct (concat (map positions cs))"
    using dist by (simp add: distinct_map)
  show s: "set (concat (map positions cs)) = filled_positions cfg g"
  proof (rule set_eqI)
    fix p
    show "p \<in> set (concat (map positions cs)) \<longleftrightarrow> p \<in> filled_positions cfg g"
    proof
      assume "p \<in> set (concat (map positions cs))"
      then obtain c where c: "c \<in> set cs" "p \<in> set (positions c)" by auto
      with oks have "cluster_ok cfg g c" by (simp add: list_all_iff)
      with c(2) have "pos_key p \<in> grid_cells cfg" "id_at g p = Some (symbolId c)" "symbolId c \<noteq> []"
        by (auto simp: cluster_ok_def list_all_iff)
      then show "p \<in> filled_positions cfg g"
        by (simp add: filled_positions_def truthy_id_def)
    next
      assume "p \<in> filled_positions cfg g"
      then have cellp: "pos_key p \<in> grid_cells cfg" and tr: "truthy_id g p"
        by (simp_all add: filled_positions_def)
      from cellp have b: "0 \<le> col p" "col p < int (columns cfg)" "0 \<le> row p" "row p < int (rows cfg)"
        by (auto simp: pos_key_def grid_cells_def)
      then have mem: "(nat (row p), nat (col p)) \<in> set ?cells" by auto
      have "\<forall>x \<in> set ?cells. case x of (r, c) \<Rightarrow>
              truthy_id g \<lparr>col = int c, row = int r\<rparr> \<longrightarrow> (int c, int r) \<in> visited"
        using sc by (simp only: list_all_iff)
      from bspec [OF this mem]
      have imp: "truthy_id g \<lparr>col = int (nat (col p)), row = int (nat (row p))\<rparr>
                      \<longrightarrow> (int (nat (col p)), int (nat (row p))) \<in> visited"
        by simp
      have eqp: "\<lparr>col = int (nat (col p)), row = int (nat (row p))\<rparr> = p"
        using b by simp
      have "pos_key p \<in> visited"
        using imp tr b unfolding eqp by (simp add: pos_key_def)
      with vis have "pos_key p \<in> pos_key ` set (concat (map positions cs))" by simp
      then show "p \<in> set (concat (map positions cs))"
        using inj_pos_key by (auto dest: injD)
    qed
  qed
  show "list_all (\<lambda>c. list_all (\<lambda>p. id_at g p = Some (symbolId c)) (positions c)) cs"
    using oks by (auto simp: list_all_iff cluster_ok_def)
  show "list_all connected_cluster cs"
    using oks linked_connected by (auto simp: list_all_iff cluster_ok_def connected_cluster_def)
  have "distinct (map (\<lambda>i. n0 + int i) [0 ..< length cs])"
    by (simp add: distinct_map inj_on_def)
  then show "distinct (map cl_id cs)" using ids by simp
  show sz: "list_all (\<lambda>c. cl_size c = length (positions c) \<and> 1 \<le> cl_size c) cs"
    using oks by (auto simp: list_all_iff cluster_ok_def Suc_le_eq)
  have "map cl_size cs = map (length \<circ> positions) cs"
    using sz by (intro map_cong) (auto simp: list_all_iff)
  then have "sum_list (map cl_size cs) = length (concat (map positions cs))"
    by (simp only: length_concat map_map)
  also have "\<dots> = card (set (concat (map positions cs)))"
    using distinct_card [OF d] by (simp only:)
  finally show "sum_list (map cl_size cs) = card (filled_positions cfg g)"
    using s by simp
qed

text \<open>
  C4, as the code has it. For every grid of the configured dimensions, the clusters
  returned by one \<open>evaluateWin\<close> pass partition the positions whose symbol has a non-empty
  id: every such position is in the positions list of exactly one cluster, once, and no
  other position is in any; every position of a cluster holds the cluster's \<open>symbolId\<close>;
  every cluster is connected through 4-directional steps between its own positions; the
  cluster ids are pairwise distinct; the size of a cluster is the length of its positions
  list; and the sizes add up to the number of positions whose symbol has a non-empty id.
  When every occupied cell holds a symbol with a non-empty id, these are the occupied
  positions.
\<close>

theorem evaluateWin_clusters_partition:
  assumes "wf_grid cfg g" and "evaluateWin cfg g r bet' fs = Inr (res, g', r')"
  shows "distinct (concat (map positions (clusters res)))
       \<and> set (concat (map positions (clusters res))) = filled_positions cfg g
       \<and> list_all (\<lambda>c. list_all (\<lambda>p. id_at g p = Some (symbolId c)) (positions c)) (clusters res)
       \<and> list_all connected_cluster (clusters res)
       \<and> distinct (map cl_id (clusters res))
       \<and> list_all (\<lambda>c. cl_size c = length (positions c) \<and> 1 \<le> cl_size c) (clusters res)
       \<and> sum_list (map cl_size (clusters res)) = card (filled_positions cfg g)
       \<and> ((\<forall>p \<in> occupied_positions cfg g. truthy_id g p)
            \<longrightarrow> filled_positions cfg g = occupied_positions cfg g)"
proof -
  from assms(2) obtain cs nextId ms where
    fc: "findClusters cfg g 0 = (cs, g', nextId)"
    and res: "res = \<lparr>clusters = map (\<lambda>c. c\<lparr>payout := pay_of cfg bet' c\<rparr>) cs,
            totalPayout = sum_list (map (pay_of cfg bet') cs) * multiplier_of fs ms,
            wr_multiplier = multiplier_of fs ms,
            scatterCount = countScatters cfg g',
            wr_freeSpinsAwarded = freeSpins_for cfg (countScatters cfg g'),
            multiplierSymbols = ms\<rparr>"
    by (rule evaluateWin_Inr)
  note p = findClusters_partition [OF fc]
  have mp: "map positions (clusters res) = map positions cs"
    and mi: "map cl_id (clusters res) = map cl_id cs"
    and ms: "map cl_size (clusters res) = map cl_size cs"
    by (simp_all add: res comp_def)
  have a: "distinct (concat (map positions (clusters res)))"
    and b: "set (concat (map positions (clusters res))) = filled_positions cfg g"
    and e: "distinct (map cl_id (clusters res))"
    and g: "sum_list (map cl_size (clusters res)) = card (filled_positions cfg g)"
    unfolding mp mi ms using p by simp_all
  have c: "list_all (\<lambda>c. list_all (\<lambda>p. id_at g p = Some (symbolId c)) (positions c)) (clusters res)"
    using p(3) by (simp add: res list_all_iff)
  have d: "list_all connected_cluster (clusters res)"
    using p(4) by (simp add: res list_all_iff connected_cluster_def)
  have f: "list_all (\<lambda>c. cl_size c = length (positions c) \<and> 1 \<le> cl_size c) (clusters res)"
    using p(6) by (auto simp: res list_all_iff)
  show ?thesis using a b c d e f g filled_eq_occupied by blast
qed

text \<open>A \<open>1 \<times> 1\<close> grid whose only cell holds a symbol with the empty id.\<close>

definition empty_id_config :: GameConfig where
  "empty_id_config =
     \<lparr>symbols = [], specialSymbols = [], columns = 1, rows = 1, targetRTP = 96, maxCascades = 1\<rparr>"

definition empty_id_grid :: Grid where
  "empty_id_grid = [[example_symbol [] 0 0]]"

lemma empty_id_evaluateWin:
  "evaluateWin empty_id_config empty_id_grid example_rng 1 False
     = Inr (\<lparr>clusters = [], totalPayout = 0, wr_multiplier = 1, scatterCount = 0,
              wr_freeSpinsAwarded = 0, multiplierSymbols = []\<rparr>, empty_id_grid, example_rng)"
  by code_simp

text \<open>
  The claim C4 as stated, over the occupied positions, fails on this grid: its cell is
  occupied, \<open>evaluateWin\<close> returns no cluster, so the position is in no cluster and the
  sizes add up to 0, not 1.
\<close>

theorem clusters_partition_counterexample:
  "wf_grid empty_id_config empty_id_grid
   \<and> \<lparr>col = 0, row = 0\<rparr> \<in> occupied_positions empty_id_config empty_id_grid
   \<and> evaluateWin empty_id_config empty_id_grid example_rng 1 False
       = Inr (\<lparr>clusters = [], totalPayout = 0, wr_multiplier = 1, scatterCount = 0,
                wr_freeSpinsAwarded = 0, multiplierSymbols = []\<rparr>, empty_id_grid, example_rng)
   \<and> \<not> (\<exists>res g' r'. evaluateWin empty_id_config empty_id_grid example_rng 1 False = Inr (res, g', r')
           \<and> (\<exists>c \<in> set (clusters res). \<lparr>col = 0, row = 0\<rparr> \<in> set (positions c)))
   \<and> \<not> (\<exists>res g' r'. evaluateWin empty_id_config empty_id_grid example_rng 1 False = Inr (res, g', r')
           \<and> sum_list (map cl_size (clusters res))
               = card (occupied_positions empty_id_config empty_id_grid))"
proof -
  have wf: "wf_grid empty_id_config empty_id_grid"
    by (simp add: wf_grid_def empty_id_config_def empty_id_grid_def)
  have occ: "occupied_positions empty_id_config empty_id_grid = {\<lparr>col = 0, row = 0\<rparr>}"
  proof (rule set_eqI)
    fix p :: GridPosition
    show "p \<in> occupied_positions empty_id_config empty_id_grid \<longleftrightarrow> p \<in> {\<lparr>col = 0, row = 0\<rparr>}"
      by (cases p)
         (auto simp: occupied_positions_def pos_key_def grid_cells_def empty_id_config_def
            empty_id_grid_def cell_def example_symbol_def)
  qed
  show ?thesis
    using wf occ by (simp add: empty_id_evaluateWin)
qed

theorem evaluateWin_clusters_partition_witness:
  "wf_grid example_config example_grid
   \<and> evaluateWin example_config example_grid example_rng 2 False
       = Inr (example_result, example_marked, example_rng)
   \<and> distinct (concat (map positions (clusters example_result)))
   \<and> set (concat (map positions (clusters example_result)))
       = filled_positions example_config example_grid
   \<and> list_all connected_cluster (clusters example_result)
   \<and> distinct (map cl_id (clusters example_result))
   \<and> sum_list (map cl_size (clusters example_result))
       = card (filled_positions example_config example_grid)"
  using evaluateWin_clusters_partition [OF example_wf example_evaluateWin]
    example_wf example_evaluateWin
  by blast

section \<open>Gravity\<close>

lemma wf_grid_bounds:
  assumes "wf_grid cfg g" and "r < rows cfg" and "c < columns cfg"
  shows "r < length g \<and> c < length (g ! r)"
  using assms by (auto simp: wf_grid_def list_all_iff)

lemma wf_grid_set_cell: "wf_grid cfg g \<Longrightarrow> wf_grid cfg (set_cell g r c v)"
  by (simp add: wf_grid_dims)

lemma cell_set_cell_wf:
  assumes "wf_grid cfg g" and "r < rows cfg" and "c < columns cfg"
  shows "cell (set_cell g r c v) r' c' = (if r' = r \<and> c' = c then v else cell g r' c')"
  using wf_grid_bounds [OF assms] by (simp add: cell_set_cell)

lemma cell_outside: "wf_grid cfg g \<Longrightarrow> \<not> (r < rows cfg \<and> c < columns cfg) \<Longrightarrow> cell g r c = None"
  by (auto simp: wf_grid_def cell_def list_all_iff)

text \<open>Clearing a column.\<close>

lemma clear_column:
  assumes "wf_grid cfg g" and "col' < columns cfg" and "n \<le> rows cfg"
  shows "wf_grid cfg (foldl (\<lambda>g row'. set_cell g row' col' None) g [0 ..< n])
       \<and> (\<forall>r c. cell (foldl (\<lambda>g row'. set_cell g row' col' None) g [0 ..< n]) r c
                 = (if c = col' \<and> r < n then None else cell g r c))"
  using assms(3)
proof (induction n)
  case 0
  show ?case using assms(1) by simp
next
  case (Suc n)
  let ?g = "foldl (\<lambda>g row'. set_cell g row' col' None) g [0 ..< n]"
  from Suc have wf: "wf_grid cfg ?g"
    and ih: "\<And>r c. cell ?g r c = (if c = col' \<and> r < n then None else cell g r c)"
    by simp_all
  have n: "n < rows cfg" using Suc.prems by simp
  have "\<And>r c. cell (set_cell ?g n col' None) r c
           = (if c = col' \<and> r < Suc n then None else cell g r c)"
    by (simp add: cell_set_cell_wf [OF wf n assms(2)] ih less_Suc_eq)
  then show ?case using wf by (simp add: wf_grid_set_cell)
qed

text \<open>Putting the collected symbols back, from the bottom row up.\<close>

lemma place_column:
  assumes "wf_grid cfg g" and "col' < columns cfg" and "m \<le> rows cfg"
  shows "wf_grid cfg (foldl (\<lambda>g i. set_cell g (rows cfg - 1 - i) col' (Some (f i))) g [0 ..< m])
       \<and> (\<forall>r c. cell (foldl (\<lambda>g i. set_cell g (rows cfg - 1 - i) col' (Some (f i))) g [0 ..< m]) r c
                 = (if c = col' \<and> rows cfg - m \<le> r \<and> r < rows cfg
                    then Some (f (rows cfg - 1 - r)) else cell g r c))"
  using assms(3)
proof (induction m)
  case 0
  show ?case using assms(1) by auto
next
  case (Suc m)
  define h where "h = foldl (\<lambda>g i. set_cell g (rows cfg - 1 - i) col' (Some (f i))) g [0 ..< m]"
  define t where "t = rows cfg - 1 - m"
  from Suc have wf: "wf_grid cfg h"
    and ih: "\<And>r c. cell h r c = (if c = col' \<and> rows cfg - m \<le> r \<and> r < rows cfg
                                  then Some (f (rows cfg - 1 - r)) else cell g r c)"
    by (simp_all add: h_def)
  have t: "t < rows cfg" using Suc.prems by (simp add: t_def)
  have step: "foldl (\<lambda>g i. set_cell g (rows cfg - 1 - i) col' (Some (f i))) g [0 ..< Suc m]
                = set_cell h t col' (Some (f m))"
    by (simp add: h_def t_def)
  have sc: "\<And>r c. cell (set_cell h t col' (Some (f m))) r c
                   = (if r = t \<and> c = col' then Some (f m) else cell h r c)"
    by (rule cell_set_cell_wf [OF wf t assms(2)])
  have "\<And>r c. cell (set_cell h t col' (Some (f m))) r c
           = (if c = col' \<and> rows cfg - Suc m \<le> r \<and> r < rows cfg
              then Some (f (rows cfg - 1 - r)) else cell g r c)"
  proof -
    fix r c
    show "cell (set_cell h t col' (Some (f m))) r c
           = (if c = col' \<and> rows cfg - Suc m \<le> r \<and> r < rows cfg
              then Some (f (rows cfg - 1 - r)) else cell g r c)"
    proof (cases "r = t \<and> c = col'")
      case True
      then have "rows cfg - 1 - r = m" "rows cfg - Suc m \<le> r" "r < rows cfg"
        using Suc.prems by (auto simp: t_def)
      with True show ?thesis unfolding sc by simp
    next
      case False
      then have "(c = col' \<and> rows cfg - Suc m \<le> r \<and> r < rows cfg)
                   = (c = col' \<and> rows cfg - m \<le> r \<and> r < rows cfg)"
        using Suc.prems by (auto simp: t_def)
      with False show ?thesis unfolding sc ih by simp
    qed
  qed
  then show ?case unfolding step using wf by (simp add: wf_grid_set_cell)
qed

text \<open>The symbols of a column, from the top row down.\<close>

definition column_symbols :: "GameConfig \<Rightarrow> Grid \<Rightarrow> nat \<Rightarrow> Symbol list" where
  "column_symbols cfg g c = List.map_filter (\<lambda>r. cell g r c) [0 ..< rows cfg]"

lemma map_filter_rev: "List.map_filter f (rev xs) = rev (List.map_filter f xs)"
  by (simp add: List.map_filter_def rev_map rev_filter)

lemma length_column_symbols: "length (column_symbols cfg g c) \<le> rows cfg"
proof -
  have "length (filter (\<lambda>r. cell g r c \<noteq> None) [0 ..< rows cfg]) \<le> length [0 ..< rows cfg]"
    by (rule length_filter_le)
  then show ?thesis by (simp add: column_symbols_def List.map_filter_def)
qed

text \<open>One column pass: the cells of the column after it, in terms of the symbols before.\<close>

definition settled_cell :: "GameConfig \<Rightarrow> Grid \<Rightarrow> nat \<Rightarrow> nat \<Rightarrow> Symbol option" where
  "settled_cell cfg g c r =
     (let occ = column_symbols cfg g c;
          top = rows cfg - length occ
      in if r < top \<or> rows cfg \<le> r then None
         else Some ((occ ! (r - top))\<lparr>position := \<lparr>col = int c, row = int r\<rparr>\<rparr>))"

lemma applyGravity_column_cells:
  assumes "wf_grid cfg g" and "col' < columns cfg"
  shows "wf_grid cfg (applyGravity_column cfg g col')
       \<and> (\<forall>r c. cell (applyGravity_column cfg g col') r c
                 = (if c = col' then settled_cell cfg g col' r else cell g r c))"
proof -
  define column where "column = List.map_filter (\<lambda>row'. cell g row' col') (rev [0 ..< rows cfg])"
  define occ where "occ = column_symbols cfg g col'"
  define k where "k = length occ"
  define g1 where "g1 = foldl (\<lambda>g row'. set_cell g row' col' None) g [0 ..< rows cfg]"
  define f where "f = (\<lambda>i. (column ! i)\<lparr>position := \<lparr>col = int col', row = int (rows cfg - 1 - i)\<rparr>\<rparr>)"
  define g2 where "g2 = foldl (\<lambda>g i. set_cell g (rows cfg - 1 - i) col' (Some (f i))) g1 [0 ..< length column]"
  have col_rev: "column = rev occ"
    by (simp add: column_def occ_def column_symbols_def map_filter_rev)
  have k: "k \<le> rows cfg" unfolding k_def occ_def by (rule length_column_symbols)
  have lc: "length column = k" by (simp add: col_rev k_def)
  from clear_column [OF assms, of "rows cfg"]
  have wf1: "wf_grid cfg g1"
    and c1: "\<And>r c. cell g1 r c = (if c = col' \<and> r < rows cfg then None else cell g r c)"
    by (simp_all add: g1_def)
  have lk: "length column \<le> rows cfg" using k lc by simp
  have g2k: "g2 = foldl (\<lambda>g i. set_cell g (rows cfg - 1 - i) col' (Some (f i))) g1 [0 ..< k]"
    unfolding g2_def lc by (rule refl)
  from place_column [OF wf1 assms(2) lk, of f]
  have wf2: "wf_grid cfg g2"
    and c2: "\<And>r c. cell g2 r c = (if c = col' \<and> rows cfg - k \<le> r \<and> r < rows cfg
                                    then Some (f (rows cfg - 1 - r)) else cell g1 r c)"
    unfolding lc g2k [symmetric] by blast+
  have eq: "applyGravity_column cfg g col' = g2"
    unfolding applyGravity_column_def Let_def g2_def g1_def f_def column_def by (rule refl)
  have sett: "\<And>r. settled_cell cfg g col' r
                 = (if r < rows cfg - k \<or> rows cfg \<le> r then None
                    else Some ((occ ! (r - (rows cfg - k)))\<lparr>position := \<lparr>col = int col', row = int r\<rparr>\<rparr>))"
    by (simp add: settled_cell_def Let_def occ_def k_def)
  have cells: "\<And>r c. cell g2 r c = (if c = col' then settled_cell cfg g col' r else cell g r c)"
  proof -
    fix r c
    show "cell g2 r c = (if c = col' then settled_cell cfg g col' r else cell g r c)"
    proof (cases "c = col'")
      case False
      then show ?thesis unfolding c2 c1 by simp
    next
      case True
      show ?thesis
      proof (cases "rows cfg - k \<le> r \<and> r < rows cfg")
        case False
        have "cell g2 r c = None"
          using True False cell_outside [OF assms(1), of r c] unfolding c2 c1 by auto
        moreover have "settled_cell cfg g col' r = None"
          using False unfolding sett by auto
        ultimately show ?thesis using True by simp
      next
        case inr: True
        then have i: "rows cfg - 1 - r < k" using k by auto
        have "column ! (rows cfg - 1 - r) = occ ! (k - 1 - (rows cfg - 1 - r))"
          using i unfolding col_rev k_def by (simp add: rev_nth)
        also have "k - 1 - (rows cfg - 1 - r) = r - (rows cfg - k)"
          using inr k by auto
        finally have nth: "column ! (rows cfg - 1 - r) = occ ! (r - (rows cfg - k))" .
        have rr: "rows cfg - 1 - (rows cfg - 1 - r) = r" using inr by auto
        have fr: "f (rows cfg - 1 - r)
                    = (occ ! (r - (rows cfg - k)))\<lparr>position := \<lparr>col = int col', row = int r\<rparr>\<rparr>"
          unfolding f_def nth rr by (rule refl)
        have "cell g2 r c = Some (f (rows cfg - 1 - r))"
          using True inr unfolding c2 by simp
        moreover have "settled_cell cfg g col' r
                         = Some ((occ ! (r - (rows cfg - k)))\<lparr>position := \<lparr>col = int col', row = int r\<rparr>\<rparr>)"
          using inr unfolding sett by auto
        ultimately show ?thesis using True fr by simp
      qed
    qed
  qed
  show ?thesis unfolding eq using wf2 cells by blast
qed

lemma map_filter_cong_set:
  "(\<And>x. x \<in> set xs \<Longrightarrow> f x = h x) \<Longrightarrow> List.map_filter f xs = List.map_filter h xs"
  by (induction xs) (simp_all add: List.map_filter_simps split: option.splits)

lemma column_symbols_cong:
  "(\<And>r. r < rows cfg \<Longrightarrow> cell g' r c = cell g r c) \<Longrightarrow> column_symbols cfg g' c = column_symbols cfg g c"
  unfolding column_symbols_def by (rule map_filter_cong_set) simp

lemma settled_cell_cong:
  "(\<And>r. r < rows cfg \<Longrightarrow> cell g' r c = cell g r c) \<Longrightarrow> settled_cell cfg g' c r = settled_cell cfg g c r"
  using column_symbols_cong [of cfg g' c g] by (simp add: settled_cell_def)

lemma applyGravity_prefix:
  assumes "wf_grid cfg g" and "n \<le> columns cfg"
  shows "wf_grid cfg (foldl (applyGravity_column cfg) g [0 ..< n])
       \<and> (\<forall>r c. cell (foldl (applyGravity_column cfg) g [0 ..< n]) r c
                 = (if c < n then settled_cell cfg g c r else cell g r c))"
  using assms(2)
proof (induction n)
  case 0
  show ?case using assms(1) by simp
next
  case (Suc n)
  let ?g = "foldl (applyGravity_column cfg) g [0 ..< n]"
  from Suc have wf: "wf_grid cfg ?g"
    and ih: "\<And>r c. cell ?g r c = (if c < n then settled_cell cfg g c r else cell g r c)"
    by simp_all
  have n: "n < columns cfg" using Suc.prems by simp
  from applyGravity_column_cells [OF wf n]
  have wf': "wf_grid cfg (applyGravity_column cfg ?g n)"
    and cs: "\<And>r c. cell (applyGravity_column cfg ?g n) r c
                     = (if c = n then settled_cell cfg ?g n r else cell ?g r c)"
    by simp_all
  have same: "\<And>r. settled_cell cfg ?g n r = settled_cell cfg g n r"
    by (rule settled_cell_cong) (simp add: ih)
  have "\<And>r c. cell (applyGravity_column cfg ?g n) r c
                 = (if c < Suc n then settled_cell cfg g c r else cell g r c)"
    by (simp add: cs same ih less_Suc_eq)
  then show ?case using wf' by simp
qed

lemma applyGravity_cells:
  assumes "wf_grid cfg g"
  shows "wf_grid cfg (applyGravity cfg g)"
    and "c < columns cfg \<Longrightarrow> cell (applyGravity cfg g) r c = settled_cell cfg g c r"
  using applyGravity_prefix [OF assms, of "columns cfg"] by (simp_all add: applyGravity_def)

text \<open>A symbol without its \<open>position\<close> field, the one field gravity rewrites.\<close>

definition strip_position :: "Symbol \<Rightarrow> Symbol" where
  "strip_position s = s\<lparr>position := \<lparr>col = 0, row = 0\<rparr>\<rparr>"

lemma column_symbols_applyGravity:
  assumes "wf_grid cfg g" and "c < columns cfg"
  shows "column_symbols cfg (applyGravity cfg g) c
           = map (\<lambda>r. (column_symbols cfg g c ! (r - (rows cfg - length (column_symbols cfg g c))))
                         \<lparr>position := \<lparr>col = int c, row = int r\<rparr>\<rparr>)
                 [rows cfg - length (column_symbols cfg g c) ..< rows cfg]"
proof -
  define occ where "occ = column_symbols cfg g c"
  define top where "top = rows cfg - length occ"
  define f where "f = settled_cell cfg g c"
  have k: "length occ \<le> rows cfg" unfolding occ_def by (rule length_column_symbols)
  have top: "top \<le> rows cfg" by (simp add: top_def)
  have f: "\<And>r. f r = (if r < top \<or> rows cfg \<le> r then None
                        else Some ((occ ! (r - top))\<lparr>position := \<lparr>col = int c, row = int r\<rparr>\<rparr>))"
    by (simp add: f_def settled_cell_def Let_def occ_def top_def)
  have "column_symbols cfg (applyGravity cfg g) c = List.map_filter f [0 ..< rows cfg]"
    unfolding column_symbols_def f_def
    by (rule map_filter_cong_set) (simp add: applyGravity_cells(2) [OF assms])
  also have "[0 ..< rows cfg] = [0 ..< top] @ [top ..< rows cfg]"
    using top upt_add_eq_append [of 0 top "rows cfg - top"] by simp
  also have "List.map_filter f ([0 ..< top] @ [top ..< rows cfg])
               = map (the \<circ> f) (filter (\<lambda>r. f r \<noteq> None) [0 ..< top])
                 @ map (the \<circ> f) (filter (\<lambda>r. f r \<noteq> None) [top ..< rows cfg])"
    by (simp add: List.map_filter_def)
  also have "filter (\<lambda>r. f r \<noteq> None) [0 ..< top] = []"
    by (simp add: f filter_empty_conv)
  also have "filter (\<lambda>r. f r \<noteq> None) [top ..< rows cfg] = [top ..< rows cfg]"
    by (simp add: f filter_id_conv)
  also have "map (the \<circ> f) [] @ map (the \<circ> f) [top ..< rows cfg]
               = map (\<lambda>r. (occ ! (r - top))\<lparr>position := \<lparr>col = int c, row = int r\<rparr>\<rparr>) [top ..< rows cfg]"
    by (simp add: f)
  finally show ?thesis unfolding occ_def top_def .
qed

text \<open>
  C5. For every grid of the configured dimensions and every column: after \<open>applyGravity\<close>
  no empty cell of the column lies below (at a higher row index than) an occupied one; the
  symbols of the column, read from the top row down, are the symbols it held before in the
  same order, their \<open>position\<close> fields apart (so the multiset of its symbols and their
  relative vertical order are unchanged); the \<open>position\<close> of every symbol in the column is
  the cell it is in; and the column is what its own pass makes of the original grid, whatever
  the other columns hold. The grid keeps its dimensions.
\<close>

theorem applyGravity_settles:
  assumes "wf_grid cfg g" and "c < columns cfg"
  shows "wf_grid cfg (applyGravity cfg g)
       \<and> (\<forall>r1 r2. r1 < r2 \<and> r2 < rows cfg \<and> cell (applyGravity cfg g) r1 c \<noteq> None
                    \<longrightarrow> cell (applyGravity cfg g) r2 c \<noteq> None)
       \<and> map strip_position (column_symbols cfg (applyGravity cfg g) c)
           = map strip_position (column_symbols cfg g c)
       \<and> (\<forall>r s. cell (applyGravity cfg g) r c = Some s
                  \<longrightarrow> position s = \<lparr>col = int c, row = int r\<rparr>)
       \<and> (\<forall>r. cell (applyGravity cfg g) r c = cell (applyGravity_column cfg g c) r c)"
proof -
  define occ where "occ = column_symbols cfg g c"
  define top where "top = rows cfg - length occ"
  have k: "length occ \<le> rows cfg" unfolding occ_def by (rule length_column_symbols)
  have cells: "\<And>r. cell (applyGravity cfg g) r c
                  = (if r < top \<or> rows cfg \<le> r then None
                     else Some ((occ ! (r - top))\<lparr>position := \<lparr>col = int c, row = int r\<rparr>\<rparr>))"
    by (simp add: applyGravity_cells(2) [OF assms] settled_cell_def Let_def occ_def top_def)
  have a: "wf_grid cfg (applyGravity cfg g)"
    by (rule applyGravity_cells(1) [OF assms(1)])
  have b: "\<forall>r1 r2. r1 < r2 \<and> r2 < rows cfg \<and> cell (applyGravity cfg g) r1 c \<noteq> None
                    \<longrightarrow> cell (applyGravity cfg g) r2 c \<noteq> None"
    unfolding cells by auto
  have cs: "column_symbols cfg (applyGravity cfg g) c
              = map (\<lambda>r. (occ ! (r - top))\<lparr>position := \<lparr>col = int c, row = int r\<rparr>\<rparr>) [top ..< rows cfg]"
    unfolding occ_def top_def by (rule column_symbols_applyGravity [OF assms])
  have c: "map strip_position (column_symbols cfg (applyGravity cfg g) c) = map strip_position occ"
  proof (rule nth_equalityI)
    show "length (map strip_position (column_symbols cfg (applyGravity cfg g) c))
            = length (map strip_position occ)"
      using k by (simp add: cs top_def)
  next
    fix i
    assume "i < length (map strip_position (column_symbols cfg (applyGravity cfg g) c))"
    then have i: "i < rows cfg - top" by (simp add: cs)
    then show "map strip_position (column_symbols cfg (applyGravity cfg g) c) ! i
                 = map strip_position occ ! i"
      using k by (simp add: cs top_def strip_position_def)
  qed
  have d: "\<forall>r s. cell (applyGravity cfg g) r c = Some s
                  \<longrightarrow> position s = \<lparr>col = int c, row = int r\<rparr>"
    unfolding cells by auto
  have e: "\<forall>r. cell (applyGravity cfg g) r c = cell (applyGravity_column cfg g c) r c"
    using applyGravity_column_cells [OF assms] applyGravity_cells(2) [OF assms] by simp
  show ?thesis using a b c d e unfolding occ_def by blast
qed

text \<open>A grid with one symbol at the top of the first column.\<close>

definition falling_grid :: Grid where
  "falling_grid = [[example_symbol ''red'' 0 0, None], [None, example_symbol ''blue'' 1 1]]"

lemma falling_wf: "wf_grid example_config falling_grid"
  by (simp add: wf_grid_def example_config_def falling_grid_def)

lemma falling_columns: "0 < columns example_config"
  by (simp add: example_config_def)

lemma falling_applyGravity:
  "applyGravity example_config falling_grid
     = [[None, None], [example_symbol ''red'' 0 1, example_symbol ''blue'' 1 1]]"
  by code_simp

theorem applyGravity_settles_witness:
  "wf_grid example_config falling_grid \<and> 0 < columns example_config
   \<and> applyGravity example_config falling_grid
       = [[None, None], [example_symbol ''red'' 0 1, example_symbol ''blue'' 1 1]]
   \<and> wf_grid example_config (applyGravity example_config falling_grid)
   \<and> map strip_position (column_symbols example_config (applyGravity example_config falling_grid) 0)
       = map strip_position (column_symbols example_config falling_grid 0)"
  using applyGravity_settles [OF falling_wf falling_columns] falling_wf falling_columns
    falling_applyGravity
  by blast

end
